theory Spec2Isabelle
  imports Main "HOL-Library.Sublist" "HOL-Library.Multiset"
begin

section \<open>Python strings\<close>

text \<open>
  Strings are lists of code points below 256. The string methods the two scripts use
  (\<^verbatim>\<open>strip\<close>, \<^verbatim>\<open>startswith\<close>, \<^verbatim>\<open>endswith\<close>, \<^verbatim>\<open>in\<close>,
  \<^verbatim>\<open>split\<close>, \<^verbatim>\<open>join\<close>, \<^verbatim>\<open>isalnum\<close>, and the formatting of an integer
  inside an f-string) are written out.
\<close>

definition isspace :: "char \<Rightarrow> bool" where
  "isspace c = ((of_char c :: nat) \<in> {9, 10, 11, 12, 13, 28, 29, 30, 31, 32, 133, 160})"

definition strip :: "string \<Rightarrow> string" where
  "strip s = rev (dropWhile isspace (rev (dropWhile isspace s)))"

definition isalnum :: "char \<Rightarrow> bool" where
  "isalnum c =
     (let n = (of_char c :: nat) in
        (48 \<le> n \<and> n \<le> 57) \<or> (65 \<le> n \<and> n \<le> 90) \<or> (97 \<le> n \<and> n \<le> 122) \<or>
        n \<in> {170, 178, 179, 181, 185, 186, 188, 189, 190} \<or>
        (192 \<le> n \<and> n \<le> 214) \<or> (216 \<le> n \<and> n \<le> 246) \<or> 248 \<le> n)"

definition startswith :: "string \<Rightarrow> string \<Rightarrow> bool" where
  "startswith s p = prefix p s"

definition endswith :: "string \<Rightarrow> string \<Rightarrow> bool" where
  "endswith s p = suffix p s"

text \<open>\<^verbatim>\<open>sub in s\<close>: \<open>sub\<close> occurs in \<open>s\<close> as a contiguous block.\<close>

fun contains :: "string \<Rightarrow> string \<Rightarrow> bool" where
  "contains [] sub = (sub = [])"
| "contains (c # cs) sub = (prefix sub (c # cs) \<or> contains cs sub)"

text \<open>\<^verbatim>\<open>s.split(sep)\<close> for a one-character separator; the empty string gives \<^verbatim>\<open>['']\<close>.\<close>

fun split :: "char \<Rightarrow> string \<Rightarrow> string list" where
  "split sep [] = [[]]"
| "split sep (c # cs) =
     (if c = sep then [] # split sep cs
      else (case split sep cs of w # ws \<Rightarrow> (c # w) # ws | [] \<Rightarrow> [[c]]))"

text \<open>\<^verbatim>\<open>xs[i]\<close> for \<open>i \<ge> 0\<close>; \<open>None\<close> is the IndexError.\<close>

fun index :: "'a list \<Rightarrow> nat \<Rightarrow> 'a option" where
  "index [] i = None"
| "index (x # xs) 0 = Some x"
| "index (x # xs) (Suc i) = index xs i"

fun join :: "string \<Rightarrow> string list \<Rightarrow> string" where
  "join sep [] = []"
| "join sep [x] = x"
| "join sep (x # y # ys) = x @ sep @ join sep (y # ys)"

definition digit_char :: "nat \<Rightarrow> char" where
  "digit_char d = ''0123456789'' ! (d mod 10)"

fun str_nat :: "nat \<Rightarrow> string" where
  "str_nat n = (if n < 10 then [digit_char n] else str_nat (n div 10) @ [digit_char (n mod 10)])"

declare str_nat.simps [simp del]

text \<open>\<^verbatim>\<open>f"{year}"\<close> for a Python int.\<close>

definition str_int :: "int \<Rightarrow> string" where
  "str_int i = (if i < 0 then CHR ''-'' # str_nat (nat (- i)) else str_nat (nat i))"


section \<open>The collaborators: HTML parser and HTTP client\<close>

text \<open>
  A parsed document is the list of its elements in document order, each with what the
  scripts read from it: the tag name, the classes, the \<^verbatim>\<open>href\<close> attribute when it has
  one, \<^verbatim>\<open>.text\<close> and \<^verbatim>\<open>.string\<close> (absent when the element has no single string
  child).
\<close>

record element =
  el_name :: string
  el_class :: "string list"
  el_href :: "string option"
  el_text :: string
  el_string :: "string option"

type_synonym soup = "element list"

text \<open>\<^verbatim>\<open>soup.find(name)\<close>\<close>

definition find_name :: "string \<Rightarrow> soup \<Rightarrow> element option" where
  "find_name n doc = find (\<lambda>e. el_name e = n) doc"

text \<open>\<^verbatim>\<open>soup.find(name, class_=c)\<close>\<close>

definition find_class :: "string \<Rightarrow> string \<Rightarrow> soup \<Rightarrow> element option" where
  "find_class n c doc = find (\<lambda>e. el_name e = n \<and> c \<in> set (el_class e)) doc"

text \<open>
  \<^verbatim>\<open>soup.find_all("a", href=True)\<close>: the anchors that have an \<^verbatim>\<open>href\<close>, each paired
  with it (\<^verbatim>\<open>link["href"]\<close> is the first component).
\<close>

fun a_href :: "element \<Rightarrow> (string \<times> element) option" where
  "a_href e =
     (if el_name e = ''a'' then (case el_href e of None \<Rightarrow> None | Some h \<Rightarrow> Some (h, e))
      else None)"

definition find_all_a_href :: "soup \<Rightarrow> (string \<times> element) list" where
  "find_all_a_href doc = List.map_filter a_href doc"

text \<open>\<^verbatim>\<open>soup.find("a", href=True, string=label)\<close>\<close>

definition find_a_href_string :: "string \<Rightarrow> soup \<Rightarrow> (string \<times> element) option" where
  "find_a_href_string label doc =
     find (\<lambda>(h, e). el_string e = Some label) (find_all_a_href doc)"

text \<open>
  \<^verbatim>\<open>requests.get(url)\<close> either raises or gives a response with a status code, the
  document parsed from its text, and its content.
\<close>

datatype response = RequestException | Response nat soup string

type_synonym net = "string \<Rightarrow> response"

text \<open>\<^verbatim>\<open>raise_for_status()\<close> raises for the codes 400 to 599.\<close>

definition raises_for_status :: "nat \<Rightarrow> bool" where
  "raises_for_status code = (400 \<le> code \<and> code < 600)"


section \<open>scrapper.py\<close>

definition BASE_URL :: string where
  "BASE_URL = ''https://papers.nips.cc''"

definition YEARS :: "int list" where
  "YEARS = [2020, 2021, 2022, 2023, 2024]"

definition PDF_FOLDER :: string where
  "PDF_FOLDER = ''neurips_pdfs''"

subsection \<open>get_paper_links\<close>

definition year_prefix :: "int \<Rightarrow> string" where
  "year_prefix year = ''/paper_files/paper/'' @ str_int year @ ''/''"

text \<open>The body of the \<^verbatim>\<open>for link in links\<close> loop, on the list built so far.\<close>

fun collect_links :: "int \<Rightarrow> (string \<times> element) list \<Rightarrow> string list \<Rightarrow> string list" where
  "collect_links year [] paper_links = paper_links"
| "collect_links year ((href, link) # links) paper_links =
     (if startswith href (year_prefix year) \<and> \<not> contains href ''/file/'' then
        (let full_url = BASE_URL @ href in
           if full_url \<notin> set paper_links
           then collect_links year links (paper_links @ [full_url])
           else collect_links year links paper_links)
      else collect_links year links paper_links)"

definition get_paper_links :: "net \<Rightarrow> int \<Rightarrow> string list" where
  "get_paper_links net year =
     (let url = BASE_URL @ ''/paper_files/paper/'' @ str_int year in
        case net url of
          RequestException \<Rightarrow> []
        | Response code doc content \<Rightarrow>
            if raises_for_status code then []
            else collect_links year (find_all_a_href doc) [])"

subsection \<open>scrape_paper_data\<close>

record paper =
  p_title :: string
  p_authors :: string
  p_abstract :: string
  p_pdf_url :: "string option"
  p_year :: string

definition PDF_LABELS :: "string list" where
  "PDF_LABELS = [''Download PDF'', ''PDF'', ''Paper PDF'']"

text \<open>The \<^verbatim>\<open>for label in [...]\<close> loop with its \<^verbatim>\<open>break\<close>.\<close>

fun find_pdf_label :: "string list \<Rightarrow> soup \<Rightarrow> (string \<times> element) option" where
  "find_pdf_label [] doc = None"
| "find_pdf_label (label # labels) doc =
     (case find_a_href_string label doc of
        Some pdf_link \<Rightarrow> Some pdf_link
      | None \<Rightarrow> find_pdf_label labels doc)"

text \<open>The fallback loop over \<^verbatim>\<open>soup.find_all("a", href=True)\<close>.\<close>

definition find_pdf_suffix :: "soup \<Rightarrow> (string \<times> element) option" where
  "find_pdf_suffix doc = find (\<lambda>(h, e). endswith h ''-Paper.pdf'') (find_all_a_href doc)"

definition find_pdf_link :: "soup \<Rightarrow> (string \<times> element) option" where
  "find_pdf_link doc =
     (case find_pdf_label PDF_LABELS doc of
        Some pdf_link \<Rightarrow> Some pdf_link
      | None \<Rightarrow> find_pdf_suffix doc)"

text \<open>
  Every exception inside the \<^verbatim>\<open>try\<close> gives \<open>None\<close>: a failed request, an error
  status, and the IndexError of \<^verbatim>\<open>url.split("/")[5]\<close>.
\<close>

definition scrape_paper_data :: "net \<Rightarrow> string \<Rightarrow> paper option" where
  "scrape_paper_data net url =
     (case net url of
        RequestException \<Rightarrow> None
      | Response code doc content \<Rightarrow>
          if raises_for_status code then None
          else
            (let title = (case find_name ''h4'' doc of
                            Some h4 \<Rightarrow> strip (el_text h4) | None \<Rightarrow> ''N/A'');
                 authors = (case find_class ''p'' ''authors'' doc of
                              Some author_p \<Rightarrow> strip (el_text author_p) | None \<Rightarrow> ''N/A'');
                 abstract = (case find_class ''p'' ''abstract'' doc of
                               Some abstract_p \<Rightarrow> strip (el_text abstract_p) | None \<Rightarrow> ''N/A'');
                 pdf_url = (case find_pdf_link doc of
                              Some (href, pdf_link) \<Rightarrow> Some (BASE_URL @ href) | None \<Rightarrow> None)
             in case index (split CHR ''/'' url) 5 of
                  None \<Rightarrow> None
                | Some year \<Rightarrow>
                    Some \<lparr>p_title = title, p_authors = authors, p_abstract = abstract,
                          p_pdf_url = pdf_url, p_year = year\<rparr>))"

subsection \<open>The state the script works on\<close>

text \<open>
  \<open>files\<close> is the file system below the working directory (a path to its content),
  \<open>csv\<close> the rows of \<^verbatim>\<open>CSV_FILE\<close> (\<open>None\<close> when the file does not exist),
  \<open>all_papers\<close> the module-level list. \<open>downloads\<close> is not program state: it lists the
  binary requests \<^verbatim>\<open>download_pdf\<close> has made, so that "no download" can be stated.
  Writing a file and appending a row always succeed; what the script prints is left out.
\<close>

record state =
  files :: "string \<Rightarrow> string option"
  csv :: "string list list option"
  all_papers :: "paper list"
  downloads :: "string list"

definition HEADER :: "string list" where
  "HEADER = [''title'', ''authors'', ''abstract'', ''pdf_url'', ''year'']"

text \<open>The module-level statements: the CSV file gets its header row unless it exists.\<close>

definition module_init :: "state \<Rightarrow> state" where
  "module_init s =
     s\<lparr>csv := (case csv s of None \<Rightarrow> Some [HEADER] | Some rows \<Rightarrow> Some rows),
       all_papers := []\<rparr>"

subsection \<open>download_pdf\<close>

definition safe_title :: "string \<Rightarrow> string" where
  "safe_title title = take 50 (strip (filter (\<lambda>c. isalnum c \<or> c \<in> set '' -_'') title))"

definition pdf_filename :: "paper \<Rightarrow> string" where
  "pdf_filename p = PDF_FOLDER @ ''/'' @ p_year p @ ''_'' @ safe_title (p_title p) @ ''.pdf''"

definition download_pdf :: "net \<Rightarrow> paper option \<Rightarrow> state \<Rightarrow> state" where
  "download_pdf net paper_data s =
     (case paper_data of
        None \<Rightarrow> s
      | Some p \<Rightarrow>
          (case p_pdf_url p of
             None \<Rightarrow> s
           | Some pdf_url \<Rightarrow>
               if pdf_url = [] then s
               else
                 (let filename = pdf_filename p in
                    if files s filename = None then
                      (case net pdf_url of
                         RequestException \<Rightarrow> s\<lparr>downloads := downloads s @ [pdf_url]\<rparr>
                       | Response code doc content \<Rightarrow>
                           if raises_for_status code
                           then s\<lparr>downloads := downloads s @ [pdf_url]\<rparr>
                           else s\<lparr>files := (files s)(filename \<mapsto> content),
                                  downloads := downloads s @ [pdf_url]\<rparr>)
                    else s)))"

subsection \<open>append_to_csv, process_paper\<close>

text \<open>One row of the data frame as \<^verbatim>\<open>to_csv\<close> writes it; \<^verbatim>\<open>None\<close> is an empty cell.\<close>

definition csv_row :: "paper \<Rightarrow> string list" where
  "csv_row p =
     [p_title p, p_authors p, p_abstract p,
      (case p_pdf_url p of None \<Rightarrow> [] | Some u \<Rightarrow> u), p_year p]"

text \<open>
  The body of \<^verbatim>\<open>with lock:\<close> as one step. Section "The lock" below models the tasks
  that interleave around it.
\<close>

definition append_to_csv :: "paper \<Rightarrow> state \<Rightarrow> state" where
  "append_to_csv p s =
     s\<lparr>csv := (case csv s of None \<Rightarrow> Some [csv_row p] | Some rows \<Rightarrow> Some (rows @ [csv_row p]))\<rparr>"

definition process_paper :: "net \<Rightarrow> string \<Rightarrow> state \<Rightarrow> paper option \<times> state" where
  "process_paper net url s =
     (case scrape_paper_data net url of
        None \<Rightarrow> (None, s)
      | Some p \<Rightarrow> (Some p, append_to_csv p (download_pdf net (Some p) s)))"

subsection \<open>process_year\<close>

text \<open>
  The worker pool chooses an order. A schedule is a list of numbers: each picks, among
  the items still waiting, the one at that position (modulo their count); when the
  numbers run out the rest follow in list order. Every order of the items is the result
  of some schedule.
\<close>

function schedule :: "nat list \<Rightarrow> 'a list \<Rightarrow> 'a list" where
  "schedule ks [] = []"
| "schedule [] (x # xs) = x # xs"
| "schedule (k # ks) (x # xs) =
     (let i = k mod length (x # xs)
      in (x # xs) ! i # schedule ks (take i (x # xs) @ drop (Suc i) (x # xs)))"
  by pat_completeness auto
termination
  by (relation "measure (\<lambda>(ks, xs). length xs)") auto

text \<open>A Python return value of \<^verbatim>\<open>process_year\<close>.\<close>

datatype pyval = PyNone | PyList "paper list"

text \<open>The tasks \<^verbatim>\<open>process_paper(url)\<close>, each run as a whole, in the order given.\<close>

fun run_tasks :: "net \<Rightarrow> string list \<Rightarrow> state \<Rightarrow> paper option list \<times> state" where
  "run_tasks net [] s = ([], s)"
| "run_tasks net (url # urls) s =
     (let (paper_data, s1) = process_paper net url s;
          (results, s2) = run_tasks net urls s1
      in (paper_data # results, s2))"

text \<open>The loop over \<^verbatim>\<open>as_completed\<close>: a result that is not \<open>None\<close> is appended.\<close>

fun collect_results :: "paper option list \<Rightarrow> paper list \<Rightarrow> paper list" where
  "collect_results [] papers = papers"
| "collect_results (None # results) papers = collect_results results papers"
| "collect_results (Some p # results) papers = collect_results results (papers @ [p])"

text \<open>
  \<open>sched\<close> holds two schedules: the order in which the tasks run and the order in which
  \<^verbatim>\<open>as_completed\<close> hands their results over. Both exits of the function are a bare
  return: the value is \<^verbatim>\<open>None\<close>.
\<close>

definition process_year :: "net \<Rightarrow> nat list \<times> nat list \<Rightarrow> int \<Rightarrow> state \<Rightarrow> pyval \<times> state" where
  "process_year net sched year s =
     (let paper_links = get_paper_links net year in
        if paper_links = [] then (PyNone, s)
        else
          (let (results, s1) = run_tasks net (schedule (fst sched) paper_links) s;
               completed = schedule (snd sched) results
           in (PyNone, s1\<lparr>all_papers := collect_results completed (all_papers s1)\<rparr>)))"

subsection \<open>main\<close>

fun run_years :: "net \<Rightarrow> (int \<Rightarrow> nat list \<times> nat list) \<Rightarrow> int list \<Rightarrow> state \<Rightarrow> state" where
  "run_years net scheds [] s = s"
| "run_years net scheds (year # years) s =
     run_years net scheds years (snd (process_year net (scheds year) year s))"

text \<open>\<^verbatim>\<open>df.to_csv(CSV_FILE, index=False)\<close>: the file is replaced by header and rows.\<close>

definition final_save :: "state \<Rightarrow> state" where
  "final_save s =
     (if all_papers s \<noteq> [] then s\<lparr>csv := Some (HEADER # map csv_row (all_papers s))\<rparr> else s)"

definition main :: "net \<Rightarrow> (int \<Rightarrow> nat list \<times> nat list) \<Rightarrow> state \<Rightarrow> state" where
  "main net scheds s = final_save (run_years net scheds YEARS s)"

text \<open>Running the script: the module-level statements, then \<^verbatim>\<open>main()\<close>.\<close>

definition scrapper :: "net \<Rightarrow> (int \<Rightarrow> nat list \<times> nat list) \<Rightarrow> state \<Rightarrow> state" where
  "scrapper net scheds s = main net scheds (module_init s)"


section \<open>The lock\<close>

text \<open>
  \<^verbatim>\<open>append_to_csv\<close> as the worker threads run it. \<^verbatim>\<open>to_csv\<close> in append mode writes
  the cells of the row and the line end at the end of the file; here every cell is a
  write of its own, so that another thread can run between any two of them. Task \<open>i\<close>
  is before the \<^verbatim>\<open>with lock:\<close>, inside it with the tokens it has still to write, or
  past it.
\<close>

datatype token = Cell string | EOL

definition csv_line :: "paper \<Rightarrow> token list" where
  "csv_line p = map Cell (csv_row p) @ [EOL]"

datatype pc = Waiting | Writing "token list" | Done

record sink =
  lock :: "nat option"
  pcs :: "pc list"
  csv_file :: "token list"

text \<open>
  One step of task \<open>i\<close>. A task that waits for a lock another task holds does not
  move, nor does a finished one.
\<close>

definition step :: "paper list \<Rightarrow> nat \<Rightarrow> sink \<Rightarrow> sink" where
  "step recs i s =
     (if length (pcs s) \<le> i \<or> length recs \<le> i then s
      else
        (case pcs s ! i of
           Waiting \<Rightarrow>
             (case lock s of
                None \<Rightarrow> s\<lparr>lock := Some i, pcs := (pcs s)[i := Writing (csv_line (recs ! i))]\<rparr>
              | Some j \<Rightarrow> s)
         | Writing [] \<Rightarrow> s\<lparr>lock := None, pcs := (pcs s)[i := Done]\<rparr>
         | Writing (t # ts) \<Rightarrow> s\<lparr>pcs := (pcs s)[i := Writing ts], csv_file := csv_file s @ [t]\<rparr>
         | Done \<Rightarrow> s))"

text \<open>A run: the threads take their steps in the order the scheduler names them.\<close>

fun run :: "paper list \<Rightarrow> nat list \<Rightarrow> sink \<Rightarrow> sink" where
  "run recs [] s = s"
| "run recs (i # sched) s = run recs sched (step recs i s)"

definition start :: "paper list \<Rightarrow> token list \<Rightarrow> sink" where
  "start recs f = \<lparr>lock = None, pcs = replicate (length recs) Waiting, csv_file = f\<rparr>"

definition all_done :: "sink \<Rightarrow> bool" where
  "all_done s = list_all (\<lambda>p. p = Done) (pcs s)"

text \<open>Reading the file back: the rows, the last one also when its line end is missing.\<close>

fun read_rows :: "string list \<Rightarrow> token list \<Rightarrow> string list list" where
  "read_rows cur [] = (if cur = [] then [] else [cur])"
| "read_rows cur (Cell c # ts) = read_rows (cur @ [c]) ts"
| "read_rows cur (EOL # ts) = cur # read_rows [] ts"

text \<open>
  What holds between the steps. \<open>order\<close> lists the finished tasks in the order in
  which they left the lock; the file is the old content, their lines in that order and,
  while task \<open>j\<close> holds the lock, the part of its line it has written. No task but
  the holder is inside the \<^verbatim>\<open>with\<close> block.
\<close>

definition lines_of :: "paper list \<Rightarrow> nat list \<Rightarrow> token list" where
  "lines_of recs order = concat (map (\<lambda>i. csv_line (recs ! i)) order)"

definition idle :: "pc \<Rightarrow> bool" where
  "idle p = (p = Waiting \<or> p = Done)"

definition sink_inv :: "paper list \<Rightarrow> token list \<Rightarrow> nat list \<Rightarrow> sink \<Rightarrow> bool" where
  "sink_inv recs f order s =
     (length (pcs s) = length recs
      \<and> distinct order
      \<and> set order = {i. i < length recs \<and> pcs s ! i = Done}
      \<and> (case lock s of
            None \<Rightarrow>
              csv_file s = f @ lines_of recs order \<and> (\<forall>i<length recs. idle (pcs s ! i))
          | Some j \<Rightarrow>
              j < length recs
              \<and> (\<exists>written ts. pcs s ! j = Writing ts \<and> csv_line (recs ! j) = written @ ts
                    \<and> csv_file s = f @ lines_of recs order @ written)
              \<and> (\<forall>i<length recs. i \<noteq> j \<longrightarrow> idle (pcs s ! i))))"

text \<open>
  The schedule in which the first \<open>k\<close> tasks run one after the other, each from
  taking the lock to giving it back.
\<close>

definition one_by_one :: "paper list \<Rightarrow> nat \<Rightarrow> nat list" where
  "one_by_one recs k =
     concat (map (\<lambda>i. replicate (Suc (Suc (length (csv_line (recs ! i))))) i) [0..<k])"


section \<open>annotation.py\<close>

definition LABELS :: "string list" where
  "LABELS = [''Deep Learning'', ''Computer Vision'', ''Reinforcement Learning'', ''NLP'',
             ''Optimization'']"

text \<open>A cell of the data frame \<^verbatim>\<open>read_csv\<close> gives: a missing value or a string.\<close>

datatype cell = NaN | Str string

text \<open>A cell inside an f-string.\<close>

fun format :: "cell \<Rightarrow> string" where
  "format NaN = ''nan''"
| "format (Str s) = s"

definition prompt :: "cell \<Rightarrow> cell \<Rightarrow> string" where
  "prompt title abstract =
     ''Classify the following research paper into one of these categories: ''
       @ join '', '' LABELS @ ''.'' @ [CHR 0x0A]
       @ ''Title: '' @ format title @ [CHR 0x0A]
       @ ''Abstract: '' @ format abstract @ [CHR 0x0A]
       @ ''Return only the category name (e.g., '' @ [CHR 0x27] @ ''Deep Learning''
       @ [CHR 0x27] @ ''). If the paper doesn'' @ [CHR 0x27]
       @ ''t fit any category, return '' @ [CHR 0x27] @ ''Other'' @ [CHR 0x27] @ ''.''"

text \<open>
  The classification service: the text of the response to a prompt, or \<open>None\<close> when
  \<^verbatim>\<open>generate_content\<close> or \<^verbatim>\<open>response.text\<close> raises.
\<close>

type_synonym service = "string \<Rightarrow> string option"

definition classify_paper :: "service \<Rightarrow> cell \<Rightarrow> cell \<Rightarrow> string" where
  "classify_paper generate_content title abstract =
     (case generate_content (prompt title abstract) of
        None \<Rightarrow> ''Other''
      | Some text \<Rightarrow>
          (let label = strip text in
             if label \<notin> set LABELS then ''Other'' else label))"

record row =
  c_title :: cell
  c_authors :: cell
  c_abstract :: cell
  c_pdf_url :: cell
  c_year :: cell
  c_label :: cell

text \<open>The data frame read from \<^verbatim>\<open>CSV_FILE\<close>: whether it has a label column, and its rows.\<close>

record dataframe =
  has_label :: bool
  df_rows :: "row list"

text \<open>
  \<open>calls\<close> lists the arguments of the calls of \<^verbatim>\<open>classify_paper\<close>, \<open>out_file\<close> is the
  content of \<^verbatim>\<open>OUTPUT_CSV_FILE\<close>.
\<close>

record annotation =
  calls :: "(cell \<times> cell) list"
  out_file :: "row list option"

text \<open>
  The pandas that runs the script decides what \<^verbatim>\<open>df.at[idx, "label"] = label\<close> does
  when the label column is a column of floats: before pandas 3 the column becomes a
  column of objects and takes the string, from pandas 3 on the write raises a
  TypeError. \<^verbatim>\<open>read_csv\<close> gives a column of floats when the file has the column and
  no row has a value in it.
\<close>

datatype pandas = Upcasts | Raises

datatype error = TypeError

definition float_labels :: "dataframe \<Rightarrow> bool" where
  "float_labels df =
     (has_label df \<and> df_rows df \<noteq> [] \<and> list_all (\<lambda>r. c_label r = NaN) (df_rows df))"

text \<open>
  The loop over \<^verbatim>\<open>df.iterrows()\<close>: \<open>seen\<close> are the rows behind the loop as they are
  now, the second list the rows still ahead, \<open>floats\<close> says whether the label column
  is a column of floats. The whole frame is written after each row. A TypeError of the
  write-back ends the pass: nothing catches it, and the frame is not written.
\<close>

fun annotate_rows ::
  "pandas \<Rightarrow> service \<Rightarrow> bool \<Rightarrow> row list \<Rightarrow> row list \<Rightarrow> annotation
     \<Rightarrow> (error + row list) \<times> annotation" where
  "annotate_rows pd svc floats seen [] a = (Inr seen, a)"
| "annotate_rows pd svc floats seen (r # rest) a =
     (if c_label r = Str ''N/A'' \<or> c_label r = NaN then
        (let title = c_title r;
             abstract = c_abstract r;
             label = classify_paper svc title abstract;
             a1 = a\<lparr>calls := calls a @ [(title, abstract)]\<rparr>
         in if floats \<and> pd = Raises then (Inl TypeError, a1)
            else
              (let r' = r\<lparr>c_label := Str label\<rparr>
               in annotate_rows pd svc False (seen @ [r']) rest
                    (a1\<lparr>out_file := Some (seen @ r' # rest)\<rparr>)))
      else annotate_rows pd svc floats (seen @ [r]) rest (a\<lparr>out_file := Some (seen @ r # rest)\<rparr>))"

text \<open>
  \<open>store\<close> is \<^verbatim>\<open>CSV_FILE\<close> as read, \<open>None\<close> when it does not exist. The content of
  \<^verbatim>\<open>OUTPUT_CSV_FILE\<close> is in \<open>a\<close>; the function writes it and never reads it.
\<close>

definition annotate_papers ::
  "pandas \<Rightarrow> service \<Rightarrow> dataframe option \<Rightarrow> annotation
     \<Rightarrow> (error + row list option) \<times> annotation" where
  "annotate_papers pd svc store a =
     (case store of
        None \<Rightarrow> (Inr None, a)
      | Some df \<Rightarrow>
          (let rows = (if \<not> has_label df
                       then map (\<lambda>r. r\<lparr>c_label := Str ''N/A''\<rparr>) (df_rows df)
                       else df_rows df)
           in case annotate_rows pd svc (float_labels df) [] rows a of
                (Inl e, a') \<Rightarrow> (Inl e, a')
              | (Inr rows', a') \<Rightarrow> (Inr (Some rows'), a')))"


section \<open>What the specification speaks of\<close>

text \<open>
  The filtering rule of the Link Discoverer: the link target begins with the
  year-scoped paper-listing prefix and contains no file-asset path segment.
\<close>

definition qualifies :: "int \<Rightarrow> string \<Rightarrow> bool" where
  "qualifies year href = (prefix (year_prefix year) href \<and> \<not> contains href ''/file/'')"

text \<open>
  Deduplication in first-seen order: an item stays where it is first seen and is
  dropped from everything behind it.
\<close>

fun first_seen :: "'a list \<Rightarrow> 'a list" where
  "first_seen [] = []"
| "first_seen (x # xs) = x # filter (\<lambda>y. y \<noteq> x) (first_seen xs)"


section \<open>Example inputs\<close>

text \<open>A small site: one index page, one detail page that lacks its authors, a PDF.\<close>

definition anchor :: "string \<Rightarrow> string \<Rightarrow> element" where
  "anchor h s =
     \<lparr>el_name = ''a'', el_class = [], el_href = Some h, el_text = s, el_string = Some s\<rparr>"

definition example_index :: soup where
  "example_index =
     [anchor ''/paper_files/paper/2023/hash/a-Abstract.html'' ''Paper A'',
      anchor ''/paper_files/paper/2023/file/a-Paper.pdf'' ''PDF'',
      anchor ''/paper_files/paper/2023/hash/b-Abstract.html'' ''Paper B'',
      \<lparr>el_name = ''a'', el_class = [], el_href = None, el_text = ''top'',
       el_string = Some ''top''\<rparr>,
      anchor ''/paper_files/paper/2023/hash/a-Abstract.html'' ''A again'',
      anchor ''/paper_files/paper/2022/hash/c-Abstract.html'' ''Paper C'']"

definition example_detail :: soup where
  "example_detail =
     [\<lparr>el_name = ''h4'', el_class = [], el_href = None, el_text = '' Paper A '',
       el_string = Some '' Paper A ''\<rparr>,
      \<lparr>el_name = ''p'', el_class = [''abstract''], el_href = None, el_text = ''About A.'',
       el_string = Some ''About A.''\<rparr>,
      anchor ''/paper_files/paper/2023/file/a-Paper.pdf'' ''Paper'']"

text \<open>A detail page with two labelled download links, and one with none.\<close>

definition example_labels :: soup where
  "example_labels =
     [anchor ''/paper_files/paper/2023/file/c-Paper.pdf'' ''Paper PDF'',
      anchor ''/about'' ''About'',
      anchor ''/paper_files/paper/2023/file/c.pdf'' ''PDF'',
      anchor ''/paper_files/paper/2023/file/c2.pdf'' ''PDF'']"

definition example_no_pdf :: soup where
  "example_no_pdf =
     [\<lparr>el_name = ''h4'', el_class = [], el_href = None, el_text = ''Paper D'',
       el_string = Some ''Paper D''\<rparr>,
      anchor ''/about'' ''About'']"

definition example_net :: net where
  "example_net url =
     (if url = ''https://papers.nips.cc/paper_files/paper/2023''
        then Response 200 example_index []
      else if url = ''https://papers.nips.cc/paper_files/paper/2023/hash/a-Abstract.html''
        then Response 200 example_detail []
      else if url = ''https://papers.nips.cc/paper_files/paper/2023/file/a-Paper.pdf''
        then Response 200 [] ''%PDF''
      else if url = ''https://papers.nips.cc/paper_files/paper/2023/hash/b-Abstract.html''
        then Response 404 [] []
      else if url = ''https://papers.nips.cc/paper_files/paper/2023/hash/c-Abstract.html''
        then Response 200 example_labels []
      else if url = ''https://papers.nips.cc/paper_files/paper/2023/hash/d-Abstract.html''
        then Response 200 example_no_pdf []
      else RequestException)"

text \<open>The network down, and the record of paper A.\<close>

definition offline :: net where
  "offline url = RequestException"

definition example_paper :: paper where
  "example_paper =
     \<lparr>p_title = ''Paper A'', p_authors = ''N/A'', p_abstract = ''About A.'',
      p_pdf_url = Some ''https://papers.nips.cc/paper_files/paper/2023/file/a-Paper.pdf'',
      p_year = ''2023''\<rparr>"

definition empty_state :: state where
  "empty_state = \<lparr>files = (\<lambda>path. None), csv = None, all_papers = [], downloads = []\<rparr>"

text \<open>A classification service that answers every prompt with the same text.\<close>

definition answers :: "string \<Rightarrow> service" where
  "answers r p = Some r"


text \<open>The records the pages C and D give.\<close>

definition example_record_c :: paper where
  "example_record_c =
     \<lparr>p_title = ''N/A'', p_authors = ''N/A'', p_abstract = ''N/A'',
      p_pdf_url = Some ''https://papers.nips.cc/paper_files/paper/2023/file/c.pdf'',
      p_year = ''2023''\<rparr>"

definition example_record_d :: paper where
  "example_record_d =
     \<lparr>p_title = ''Paper D'', p_authors = ''N/A'', p_abstract = ''N/A'',
      p_pdf_url = None, p_year = ''2023''\<rparr>"

text \<open>
  The store as the crawl leaves it, with two rows and no label column; and the output
  file as a first pass leaves it when it is stopped after its first row.
\<close>

definition example_row :: "string \<Rightarrow> cell \<Rightarrow> row" where
  "example_row t l =
     \<lparr>c_title = Str t, c_authors = NaN, c_abstract = Str ''About'', c_pdf_url = NaN,
      c_year = Str ''2023'', c_label = l\<rparr>"

definition crawl_df :: dataframe where
  "crawl_df = \<lparr>has_label = False, df_rows = [example_row ''A'' NaN, example_row ''B'' NaN]\<rparr>"

definition no_annotation :: annotation where
  "no_annotation = \<lparr>calls = [], out_file = None\<rparr>"

definition after_first_row :: annotation where
  "after_first_row =
     \<lparr>calls = [(Str ''A'', Str ''About'')],
      out_file = Some [example_row ''A'' (Str ''NLP''), example_row ''B'' (Str ''N/A'')]\<rparr>"

definition stopped :: annotation where
  "stopped =
     \<lparr>calls = [],
      out_file = Some [example_row ''A'' (Str ''NLP''), example_row ''B'' (Str ''N/A'')]\<rparr>"

text \<open>A store whose label column has no value in any row.\<close>

definition empty_labels_df :: dataframe where
  "empty_labels_df = \<lparr>has_label = True, df_rows = [example_row ''A'' NaN]\<rparr>"

text \<open>
  The schedule that takes every year's tasks in list order, and a store that an earlier
  run has left with one row.
\<close>

definition in_order :: "int \<Rightarrow> nat list \<times> nat list" where
  "in_order year = ([], [])"

definition earlier_row :: "string list" where
  "earlier_row = [''Paper Z'', ''Z. Author'', ''About Z.'', [], ''2021'']"

definition earlier_state :: state where
  "earlier_state = empty_state\<lparr>csv := Some [HEADER, earlier_row]\<rparr>"

text \<open>Two tasks and a schedule in which the first has to wait for the second.\<close>

definition two_papers :: "paper list" where
  "two_papers = [example_paper, example_record_d]"

definition example_schedule :: "nat list" where
  "example_schedule = [1, 0, 1, 0, 1, 0, 1, 1, 1, 1, 1, 0, 0, 0, 0, 0, 0, 0, 0]"


section \<open>Properties of the string functions\<close>

lemma contains_iff: "contains s sub \<longleftrightarrow> (\<exists>ps ss. s = ps @ sub @ ss)"
proof (induction s)
  case Nil
  then show ?case by auto
next
  case (Cons c cs)
  show ?case (is "?L = ?R")
  proof
    assume ?L
    then consider "prefix sub (c # cs)" | "contains cs sub" by auto
    then show ?R
    proof cases
      case 1
      then obtain ss where "c # cs = sub @ ss" by (auto simp: prefix_def)
      then have "c # cs = [] @ sub @ ss" by simp
      then show ?thesis by blast
    next
      case 2
      then obtain ps ss where "cs = ps @ sub @ ss" using Cons.IH by auto
      then have "c # cs = (c # ps) @ sub @ ss" by simp
      then show ?thesis by blast
    qed
  next
    assume ?R
    then obtain ps ss where eq: "c # cs = ps @ sub @ ss" by auto
    show ?L
    proof (cases ps)
      case Nil
      with eq have "prefix sub (c # cs)" by (simp add: prefix_def)
      then show ?thesis by simp
    next
      case (Cons p ps')
      with eq have "cs = ps' @ sub @ ss" by simp
      then show ?thesis using Cons.IH by auto
    qed
  qed
qed

lemma split_append_sep: "sep \<notin> set a \<Longrightarrow> split sep (a @ sep # b) = a # split sep b"
  by (induction a) auto

lemma digit_char_in: "digit_char d \<in> set ''0123456789''"
  unfolding digit_char_def by (rule nth_mem) simp

lemma digit_char_no_slash: "digit_char d \<noteq> CHR ''/''"
  using digit_char_in [of d] by auto

lemma str_nat_no_slash: "CHR ''/'' \<notin> set (str_nat n)"
proof (induction n rule: str_nat.induct)
  case (1 n)
  show ?case
  proof (cases "n < 10")
    case True
    then show ?thesis using digit_char_no_slash [of n] by (simp add: str_nat.simps [of n])
  next
    case False
    then show ?thesis
      using 1 digit_char_no_slash [of "n mod 10"] by (simp add: str_nat.simps [of n])
  qed
qed

lemma str_int_no_slash: "CHR ''/'' \<notin> set (str_int i)"
  by (simp add: str_int_def str_nat_no_slash)

lemma strip_LABELS: "l \<in> set LABELS \<Longrightarrow> strip l = l"
  by (auto simp: LABELS_def strip_def isspace_def)

lemma str_int_2023: "str_int 2023 = ''2023''"
  by (simp add: str_int_def str_nat.simps digit_char_def)


section \<open>Link discovery\<close>

lemma set_first_seen: "set (first_seen xs) = set xs"
  by (induction xs) auto

lemma distinct_first_seen: "distinct (first_seen xs)"
  by (induction xs) (auto simp: set_first_seen)

lemma collect_links_acc:
  "collect_links year links acc =
     acc @ filter (\<lambda>u. u \<notin> set acc)
            (first_seen (map (\<lambda>h. BASE_URL @ h) (filter (qualifies year) (map fst links))))"
proof (induction links arbitrary: acc)
  case Nil
  then show ?case by simp
next
  case (Cons l links)
  obtain href link where l: "l = (href, link)" by (cases l)
  show ?case
    unfolding l
    by (auto simp: Cons.IH qualifies_def startswith_def Let_def intro!: filter_cong)
qed

lemma year_segment:
  "index (split CHR ''/'' (BASE_URL @ year_prefix year @ rest)) 5 = Some (str_int year)"
  by (simp add: BASE_URL_def year_prefix_def split_append_sep str_int_no_slash eval_nat_numeral)

lemma discovered_url:
  assumes "url \<in> set (get_paper_links net year)"
  shows "\<exists>rest. url = BASE_URL @ year_prefix year @ rest"
proof -
  from assms obtain links where "url \<in> set (collect_links year links [])"
    by (auto simp: get_paper_links_def Let_def split: response.splits if_splits)
  then obtain h where "url = BASE_URL @ h" and "qualifies year h"
    by (auto simp: collect_links_acc set_first_seen)
  then show ?thesis by (auto simp: qualifies_def prefix_def)
qed

text \<open>
  C8. When the index page of a year is fetched, \<open>get_paper_links\<close> returns the
  targets of its anchors that begin with \<^verbatim>\<open>/paper_files/paper/{year}/\<close> and do not
  contain \<^verbatim>\<open>/file/\<close>, each made a URL by putting the base in front, each once, in
  the order in which they are first seen; nothing else is returned.
\<close>

theorem get_paper_links_first_seen:
  assumes "net (BASE_URL @ ''/paper_files/paper/'' @ str_int year) = Response code doc content"
    and "\<not> raises_for_status code"
  shows "get_paper_links net year =
           first_seen (map (\<lambda>h. BASE_URL @ h)
             (filter (qualifies year) (map fst (find_all_a_href doc))))
         \<and> distinct (get_paper_links net year)
         \<and> set (get_paper_links net year) =
             {BASE_URL @ h | h. h \<in> fst ` set (find_all_a_href doc) \<and> qualifies year h}"
proof -
  have eq: "get_paper_links net year =
      first_seen (map (\<lambda>h. BASE_URL @ h)
        (filter (qualifies year) (map fst (find_all_a_href doc))))"
    using assms by (simp add: get_paper_links_def collect_links_acc)
  show ?thesis
    unfolding eq by (auto simp: distinct_first_seen set_first_seen)
qed

lemma example_index_hrefs:
  "map fst (find_all_a_href example_index) =
     [''/paper_files/paper/2023/hash/a-Abstract.html'',
      ''/paper_files/paper/2023/file/a-Paper.pdf'',
      ''/paper_files/paper/2023/hash/b-Abstract.html'',
      ''/paper_files/paper/2023/hash/a-Abstract.html'',
      ''/paper_files/paper/2022/hash/c-Abstract.html'']"
  by (simp add: find_all_a_href_def example_index_def anchor_def List.map_filter_simps)

theorem get_paper_links_first_seen_witness:
  "example_net (BASE_URL @ ''/paper_files/paper/'' @ str_int 2023) = Response 200 example_index []
   \<and> \<not> raises_for_status 200
   \<and> get_paper_links example_net 2023 =
       [''https://papers.nips.cc/paper_files/paper/2023/hash/a-Abstract.html'',
        ''https://papers.nips.cc/paper_files/paper/2023/hash/b-Abstract.html'']"
proof -
  have h1: "example_net (BASE_URL @ ''/paper_files/paper/'' @ str_int 2023)
              = Response 200 example_index []"
    by (simp add: example_net_def BASE_URL_def str_int_2023)
  have h2: "\<not> raises_for_status 200"
    by (simp add: raises_for_status_def)
  have "first_seen (map (\<lambda>h. BASE_URL @ h)
          (filter (qualifies 2023) (map fst (find_all_a_href example_index))))
     = [''https://papers.nips.cc/paper_files/paper/2023/hash/a-Abstract.html'',
        ''https://papers.nips.cc/paper_files/paper/2023/hash/b-Abstract.html'']"
    by (simp add: example_index_hrefs qualifies_def year_prefix_def str_int_2023 BASE_URL_def)
  with get_paper_links_first_seen [of example_net 2023 200 example_index "[]", OF h1 h2] h1 h2
  show ?thesis by simp
qed

section \<open>Detail extraction\<close>

lemmas soup_eval =
  find_name_def find_class_def find_pdf_link_def find_pdf_suffix_def find_a_href_string_def
  find_all_a_href_def List.map_filter_simps PDF_LABELS_def endswith_def suffix_to_prefix
  anchor_def

lemmas scrape_eval =
  scrape_paper_data_def example_net_def raises_for_status_def soup_eval
  strip_def isspace_def BASE_URL_def eval_nat_numeral

text \<open>
  C4. A detail page is a URL that link discovery returns. When such a page is fetched,
  \<open>scrape_paper_data\<close> returns a record, whatever is missing on the page: the title,
  the authors and the abstract are \<^verbatim>\<open>N/A\<close> where the parser finds no element and the
  stripped text of the element where it finds one, and the year is the year of the
  index page.
\<close>

theorem scrape_paper_data_sentinels:
  assumes "url \<in> set (get_paper_links net year)"
    and "net url = Response code doc content"
    and "\<not> raises_for_status code"
  shows "\<exists>r. scrape_paper_data net url = Some r
    \<and> p_title r = (case find_name ''h4'' doc of
                     None \<Rightarrow> ''N/A'' | Some e \<Rightarrow> strip (el_text e))
    \<and> p_authors r = (case find_class ''p'' ''authors'' doc of
                       None \<Rightarrow> ''N/A'' | Some e \<Rightarrow> strip (el_text e))
    \<and> p_abstract r = (case find_class ''p'' ''abstract'' doc of
                        None \<Rightarrow> ''N/A'' | Some e \<Rightarrow> strip (el_text e))
    \<and> p_year r = str_int year"
proof -
  from discovered_url [OF assms(1)] obtain rest where "url = BASE_URL @ year_prefix year @ rest" ..
  then have "index (split CHR ''/'' url) 5 = Some (str_int year)"
    by (simp only: year_segment)
  with assms(2,3) show ?thesis
    by (auto simp: scrape_paper_data_def Let_def split: option.splits)
qed

theorem scrape_paper_data_sentinels_witness:
  "''https://papers.nips.cc/paper_files/paper/2023/hash/a-Abstract.html''
      \<in> set (get_paper_links example_net 2023)
   \<and> example_net ''https://papers.nips.cc/paper_files/paper/2023/hash/a-Abstract.html''
       = Response 200 example_detail []
   \<and> \<not> raises_for_status 200
   \<and> find_class ''p'' ''authors'' example_detail = None
   \<and> (\<exists>r. scrape_paper_data example_net
              ''https://papers.nips.cc/paper_files/paper/2023/hash/a-Abstract.html'' = Some r
         \<and> p_title r = ''Paper A'' \<and> p_authors r = ''N/A'' \<and> p_abstract r = ''About A.''
         \<and> p_year r = ''2023'')"
proof -
  let ?url = "''https://papers.nips.cc/paper_files/paper/2023/hash/a-Abstract.html''"
  have links: "get_paper_links example_net 2023 =
       [''https://papers.nips.cc/paper_files/paper/2023/hash/a-Abstract.html'',
        ''https://papers.nips.cc/paper_files/paper/2023/hash/b-Abstract.html'']"
    by (simp add: get_paper_links_def BASE_URL_def str_int_2023 example_net_def
        raises_for_status_def collect_links_acc example_index_hrefs qualifies_def year_prefix_def)
  then have h1: "?url \<in> set (get_paper_links example_net 2023)" by simp
  have h2: "example_net ?url = Response 200 example_detail []"
    by (simp add: example_net_def)
  have h3: "\<not> raises_for_status 200"
    by (simp add: raises_for_status_def)
  have f: "find_name ''h4'' example_detail = Some (example_detail ! 0)"
    "find_class ''p'' ''authors'' example_detail = None"
    "find_class ''p'' ''abstract'' example_detail = Some (example_detail ! 1)"
    by (simp_all add: example_detail_def soup_eval)
  have t: "strip (el_text (example_detail ! 0)) = ''Paper A''"
    "strip (el_text (example_detail ! 1)) = ''About A.''"
    by (simp_all add: example_detail_def strip_def isspace_def)
  from scrape_paper_data_sentinels [OF h1 h2 h3] h1 h2 h3 f t
  show ?thesis by (simp add: str_int_2023)
qed

lemma scrape_pdf_url:
  "net url = Response code doc content \<Longrightarrow> scrape_paper_data net url = Some r \<Longrightarrow>
     p_pdf_url r = (case find_pdf_link doc of Some (h, l) \<Rightarrow> Some (BASE_URL @ h) | None \<Rightarrow> None)"
  by (auto simp: scrape_paper_data_def Let_def split: if_splits option.splits)

lemma find_first:
  "xs = before @ x # after \<Longrightarrow> P x \<Longrightarrow> \<forall>y\<in>set before. \<not> P y \<Longrightarrow> find P xs = Some x"
  by (induction before arbitrary: xs) auto

lemma find_pdf_label_at:
  "i < length ls \<Longrightarrow> find_a_href_string (ls ! i) doc = Some x \<Longrightarrow>
     \<forall>j<i. find_a_href_string (ls ! j) doc = None \<Longrightarrow> find_pdf_label ls doc = Some x"
proof (induction ls arbitrary: i)
  case Nil
  then show ?case by simp
next
  case (Cons l ls)
  show ?case
  proof (cases i)
    case 0
    with Cons.prems show ?thesis by simp
  next
    case (Suc k)
    with Cons.prems have "find_a_href_string l doc = None" by auto
    moreover have "find_pdf_label ls doc = Some x"
    proof (rule Cons.IH [of k])
      show "k < length ls" using Cons.prems Suc by simp
      show "find_a_href_string (ls ! k) doc = Some x" using Cons.prems Suc by simp
      show "\<forall>j<k. find_a_href_string (ls ! j) doc = None"
      proof (intro allI impI)
        fix j assume "j < k"
        then have "Suc j < i" using Suc by simp
        with Cons.prems(3) have "find_a_href_string ((l # ls) ! Suc j) doc = None" by blast
        then show "find_a_href_string (ls ! j) doc = None" by simp
      qed
    qed
    ultimately show ?thesis by simp
  qed
qed

lemma find_Some_set: "find P xs = Some x \<Longrightarrow> x \<in> set xs"
  by (induction xs) (auto split: if_splits)

lemma find_pdf_label_None:
  "find_pdf_label ls doc = None \<longleftrightarrow> (\<forall>l\<in>set ls. find_a_href_string l doc = None)"
  by (induction ls) (auto split: option.splits)

lemma find_pdf_label_Some:
  "find_pdf_label ls doc = Some x \<Longrightarrow> x \<in> set (find_all_a_href doc)"
  by (induction ls) (auto simp: find_a_href_string_def dest: find_Some_set split: option.splits)

lemma find_a_href_string_None:
  "find_a_href_string l doc = None \<longleftrightarrow> (\<forall>(h, e)\<in>set (find_all_a_href doc). el_string e \<noteq> Some l)"
  by (auto simp: find_a_href_string_def find_None_iff)

lemma example_scrape_c:
  "scrape_paper_data example_net ''https://papers.nips.cc/paper_files/paper/2023/hash/c-Abstract.html''
     = Some example_record_c"
  by (simp add: scrape_eval example_labels_def example_record_c_def)

lemma example_scrape_d:
  "scrape_paper_data example_net ''https://papers.nips.cc/paper_files/paper/2023/hash/d-Abstract.html''
     = Some example_record_d"
  by (simp add: scrape_eval example_no_pdf_def example_record_d_def)

text \<open>
  C5. For a fetched page that gives a record \<open>r\<close>, with the anchors that have an
  \<^verbatim>\<open>href\<close> in document order: the labels are tried in the order Download PDF, PDF,
  Paper PDF; if the anchor \<open>e\<close> is the first whose string is the \<open>i\<close>-th label and no
  anchor carries an earlier label, the URL is the base followed by the target of \<open>e\<close>;
  if no anchor carries any label, the first anchor whose target ends in
  \<^verbatim>\<open>-Paper.pdf\<close> gives the URL in the same way; and a URL that is present is always
  the base followed by the target of an anchor of the page.
\<close>

theorem scrape_paper_data_pdf_url:
  assumes fetched: "net url = Response code doc content"
    and rec: "scrape_paper_data net url = Some r"
  shows "PDF_LABELS = [''Download PDF'', ''PDF'', ''Paper PDF'']
    \<and> (\<forall>i before h e after.
          i < length PDF_LABELS
          \<and> find_all_a_href doc = before @ (h, e) # after
          \<and> el_string e = Some (PDF_LABELS ! i)
          \<and> (\<forall>(h', e')\<in>set before. el_string e' \<noteq> Some (PDF_LABELS ! i))
          \<and> (\<forall>j<i. \<forall>(h', e')\<in>set (find_all_a_href doc). el_string e' \<noteq> Some (PDF_LABELS ! j))
          \<longrightarrow> p_pdf_url r = Some (BASE_URL @ h))
    \<and> (\<forall>before h e after.
          (\<forall>l\<in>set PDF_LABELS. \<forall>(h', e')\<in>set (find_all_a_href doc). el_string e' \<noteq> Some l)
          \<and> find_all_a_href doc = before @ (h, e) # after
          \<and> suffix ''-Paper.pdf'' h
          \<and> (\<forall>(h', e')\<in>set before. \<not> suffix ''-Paper.pdf'' h')
          \<longrightarrow> p_pdf_url r = Some (BASE_URL @ h))
    \<and> (\<forall>u. p_pdf_url r = Some u \<longrightarrow>
          (\<exists>h e. (h, e) \<in> set (find_all_a_href doc) \<and> u = BASE_URL @ h))"
proof (intro conjI allI impI)
  show "PDF_LABELS = [''Download PDF'', ''PDF'', ''Paper PDF'']" by (simp add: PDF_LABELS_def)
next
  fix i before h e after
  assume a: "i < length PDF_LABELS
          \<and> find_all_a_href doc = before @ (h, e) # after
          \<and> el_string e = Some (PDF_LABELS ! i)
          \<and> (\<forall>(h', e')\<in>set before. el_string e' \<noteq> Some (PDF_LABELS ! i))
          \<and> (\<forall>j<i. \<forall>(h', e')\<in>set (find_all_a_href doc). el_string e' \<noteq> Some (PDF_LABELS ! j))"
  have "find_a_href_string (PDF_LABELS ! i) doc = Some (h, e)"
    unfolding find_a_href_string_def
    by (rule find_first [of _ before _ after]) (use a in auto)
  moreover have "\<forall>j<i. find_a_href_string (PDF_LABELS ! j) doc = None"
    using a by (simp add: find_a_href_string_None)
  ultimately have "find_pdf_label PDF_LABELS doc = Some (h, e)"
    using a by (intro find_pdf_label_at [of i]) auto
  then show "p_pdf_url r = Some (BASE_URL @ h)"
    by (simp add: scrape_pdf_url [OF fetched rec] find_pdf_link_def)
next
  fix before h e after
  assume a: "(\<forall>l\<in>set PDF_LABELS. \<forall>(h', e')\<in>set (find_all_a_href doc). el_string e' \<noteq> Some l)
          \<and> find_all_a_href doc = before @ (h, e) # after
          \<and> suffix ''-Paper.pdf'' h
          \<and> (\<forall>(h', e')\<in>set before. \<not> suffix ''-Paper.pdf'' h')"
  have "find_pdf_label PDF_LABELS doc = None"
    using a by (simp add: find_pdf_label_None find_a_href_string_None)
  moreover have "find_pdf_suffix doc = Some (h, e)"
    unfolding find_pdf_suffix_def
    by (rule find_first [of _ before _ after]) (use a in \<open>auto simp: endswith_def\<close>)
  ultimately show "p_pdf_url r = Some (BASE_URL @ h)"
    by (simp add: scrape_pdf_url [OF fetched rec] find_pdf_link_def)
next
  fix u
  assume "p_pdf_url r = Some u"
  then obtain h e where l: "find_pdf_link doc = Some (h, e)" and u: "u = BASE_URL @ h"
    by (auto simp: scrape_pdf_url [OF fetched rec] split: option.splits)
  from l have "(h, e) \<in> set (find_all_a_href doc)"
    by (auto simp: find_pdf_link_def find_pdf_suffix_def
        dest: find_pdf_label_Some find_Some_set split: option.splits)
  with u show "\<exists>h e. (h, e) \<in> set (find_all_a_href doc) \<and> u = BASE_URL @ h" by blast
qed

theorem scrape_paper_data_pdf_url_witness:
  "example_net ''https://papers.nips.cc/paper_files/paper/2023/hash/c-Abstract.html''
     = Response 200 example_labels []
   \<and> scrape_paper_data example_net
        ''https://papers.nips.cc/paper_files/paper/2023/hash/c-Abstract.html''
       = Some example_record_c
   \<and> map (\<lambda>(h, e). (h, el_string e)) (find_all_a_href example_labels) =
       [(''/paper_files/paper/2023/file/c-Paper.pdf'', Some ''Paper PDF''),
        (''/about'', Some ''About'')]
       @ (''/paper_files/paper/2023/file/c.pdf'', Some ''PDF'')
       # [(''/paper_files/paper/2023/file/c2.pdf'', Some ''PDF'')]
   \<and> PDF_LABELS ! 1 = ''PDF''
   \<and> p_pdf_url example_record_c = Some (BASE_URL @ ''/paper_files/paper/2023/file/c.pdf'')"
proof -
  let ?url = "''https://papers.nips.cc/paper_files/paper/2023/hash/c-Abstract.html''"
  let ?e = "anchor ''/paper_files/paper/2023/file/c.pdf'' ''PDF''"
  let ?before = "[(''/paper_files/paper/2023/file/c-Paper.pdf'',
                    anchor ''/paper_files/paper/2023/file/c-Paper.pdf'' ''Paper PDF''),
                  (''/about'', anchor ''/about'' ''About'')]"
  let ?after = "[(''/paper_files/paper/2023/file/c2.pdf'',
                   anchor ''/paper_files/paper/2023/file/c2.pdf'' ''PDF'')]"
  have h1: "example_net ?url = Response 200 example_labels []"
    by (simp add: example_net_def)
  have as: "find_all_a_href example_labels
              = ?before @ (''/paper_files/paper/2023/file/c.pdf'', ?e) # ?after"
    by (simp add: example_labels_def find_all_a_href_def List.map_filter_simps anchor_def)
  have hyp: "1 < length PDF_LABELS
      \<and> find_all_a_href example_labels
          = ?before @ (''/paper_files/paper/2023/file/c.pdf'', ?e) # ?after
      \<and> el_string ?e = Some (PDF_LABELS ! 1)
      \<and> (\<forall>(h', e')\<in>set ?before. el_string e' \<noteq> Some (PDF_LABELS ! 1))
      \<and> (\<forall>j<1. \<forall>(h', e')\<in>set (find_all_a_href example_labels).
             el_string e' \<noteq> Some (PDF_LABELS ! j))"
    unfolding as by (simp add: PDF_LABELS_def anchor_def)
  from scrape_paper_data_pdf_url [OF h1 example_scrape_c]
  have "\<forall>i before h e after.
          i < length PDF_LABELS
          \<and> find_all_a_href example_labels = before @ (h, e) # after
          \<and> el_string e = Some (PDF_LABELS ! i)
          \<and> (\<forall>(h', e')\<in>set before. el_string e' \<noteq> Some (PDF_LABELS ! i))
          \<and> (\<forall>j<i. \<forall>(h', e')\<in>set (find_all_a_href example_labels).
                 el_string e' \<noteq> Some (PDF_LABELS ! j))
          \<longrightarrow> p_pdf_url example_record_c = Some (BASE_URL @ h)"
    by blast
  with hyp have "p_pdf_url example_record_c
                   = Some (BASE_URL @ ''/paper_files/paper/2023/file/c.pdf'')"
    by blast
  with h1 example_scrape_c as show ?thesis
    by (simp add: PDF_LABELS_def anchor_def)
qed

section \<open>Artifact fetching\<close>

lemma find_pdf_link_None:
  assumes "\<forall>(h, e)\<in>set (find_all_a_href doc).
             el_string e \<notin> Some ` set PDF_LABELS \<and> \<not> suffix ''-Paper.pdf'' h"
  shows "find_pdf_link doc = None"
proof -
  have "find_pdf_label PDF_LABELS doc = None"
    using assms by (fastforce simp: find_pdf_label_None find_a_href_string_None)
  moreover have "find_pdf_suffix doc = None"
    using assms by (auto simp: find_pdf_suffix_def find_None_iff endswith_def)
  ultimately show ?thesis by (simp add: find_pdf_link_def)
qed

text \<open>
  C6. When no anchor of a fetched page carries one of the labels or a target ending in
  \<^verbatim>\<open>-Paper.pdf\<close>, the \<open>pdf_url\<close> of the record is \<open>None\<close> (the absent value, which
  no string equals); and \<open>download_pdf\<close> on a record without \<open>pdf_url\<close> returns the
  state it was given: no file is written, no request is made, nothing is raised.
\<close>

theorem no_pdf_link_no_download:
  "(net url = Response code doc content \<and> scrape_paper_data net url = Some r
      \<and> (\<forall>(h, e)\<in>set (find_all_a_href doc).
            el_string e \<notin> Some ` set PDF_LABELS \<and> \<not> suffix ''-Paper.pdf'' h)
      \<longrightarrow> p_pdf_url r = None)
   \<and> (p_pdf_url p = None \<longrightarrow> download_pdf net' (Some p) s = s)"
proof (intro conjI impI)
  assume a: "net url = Response code doc content \<and> scrape_paper_data net url = Some r
      \<and> (\<forall>(h, e)\<in>set (find_all_a_href doc).
            el_string e \<notin> Some ` set PDF_LABELS \<and> \<not> suffix ''-Paper.pdf'' h)"
  then have "find_pdf_link doc = None" by (intro find_pdf_link_None) blast
  with a show "p_pdf_url r = None" by (simp add: scrape_pdf_url [of net url code doc content r])
next
  assume "p_pdf_url p = None"
  then show "download_pdf net' (Some p) s = s" by (simp add: download_pdf_def)
qed

theorem no_pdf_link_no_download_witness:
  "example_net ''https://papers.nips.cc/paper_files/paper/2023/hash/d-Abstract.html''
     = Response 200 example_no_pdf []
   \<and> scrape_paper_data example_net
        ''https://papers.nips.cc/paper_files/paper/2023/hash/d-Abstract.html''
       = Some example_record_d
   \<and> map (\<lambda>(h, e). (h, el_string e)) (find_all_a_href example_no_pdf) = [(''/about'', Some ''About'')]
   \<and> p_pdf_url example_record_d = None
   \<and> download_pdf example_net (Some example_record_d) empty_state = empty_state"
proof -
  let ?url = "''https://papers.nips.cc/paper_files/paper/2023/hash/d-Abstract.html''"
  have h1: "example_net ?url = Response 200 example_no_pdf []"
    by (simp add: example_net_def)
  have as: "find_all_a_href example_no_pdf = [(''/about'', anchor ''/about'' ''About'')]"
    by (simp add: example_no_pdf_def find_all_a_href_def List.map_filter_simps anchor_def)
  have h3: "\<forall>(h, e)\<in>set (find_all_a_href example_no_pdf).
              el_string e \<notin> Some ` set PDF_LABELS \<and> \<not> suffix ''-Paper.pdf'' h"
    unfolding as by (simp add: PDF_LABELS_def anchor_def suffix_to_prefix)
  from no_pdf_link_no_download
    [of example_net ?url 200 example_no_pdf "[]" example_record_d example_record_d
        example_net empty_state]
    h1 example_scrape_d h3
  have "p_pdf_url example_record_d = None
        \<and> download_pdf example_net (Some example_record_d) empty_state = empty_state"
    by blast
  with h1 example_scrape_d as show ?thesis by (simp add: anchor_def)
qed

lemma example_filename: "pdf_filename example_paper = ''neurips_pdfs/2023_Paper A.pdf''"
  by (simp add: pdf_filename_def example_paper_def PDF_FOLDER_def safe_title_def strip_def
      isalnum_def isspace_def)

lemma example_download:
  "download_pdf example_net (Some example_paper) empty_state =
     empty_state\<lparr>files := (files empty_state)(''neurips_pdfs/2023_Paper A.pdf'' \<mapsto> ''%PDF''),
       downloads := [''https://papers.nips.cc/paper_files/paper/2023/file/a-Paper.pdf'']\<rparr>"
proof -
  have "p_pdf_url example_paper
          = Some ''https://papers.nips.cc/paper_files/paper/2023/file/a-Paper.pdf''"
    by (simp add: example_paper_def)
  then show ?thesis
    by (simp add: download_pdf_def example_filename empty_state_def example_net_def
        raises_for_status_def)
qed

text \<open>
  C7. If the target file of a record exists after \<open>download_pdf\<close> has run, running it
  again for the same record changes nothing, whatever the network would answer: the
  files are the same and no request is made.
\<close>

theorem download_pdf_idempotent:
  "files (download_pdf net (Some p) s) (pdf_filename p) \<noteq> None \<longrightarrow>
     download_pdf net' (Some p) (download_pdf net (Some p) s) = download_pdf net (Some p) s"
  by (auto simp: download_pdf_def Let_def split: option.splits response.splits)

theorem download_pdf_idempotent_witness:
  "files (download_pdf example_net (Some example_paper) empty_state) (pdf_filename example_paper)
     = Some ''%PDF''
   \<and> download_pdf offline (Some example_paper)
         (download_pdf example_net (Some example_paper) empty_state)
       = download_pdf example_net (Some example_paper) empty_state"
proof -
  have h: "files (download_pdf example_net (Some example_paper) empty_state)
             (pdf_filename example_paper) = Some ''%PDF''"
    by (simp add: example_download example_filename)
  with download_pdf_idempotent [of example_net example_paper empty_state offline]
  show ?thesis by simp
qed

section \<open>Classification\<close>

text \<open>
  C9, as stated, fails: the answer \<^verbatim>\<open>NLP\<close> followed by a line feed is not one of the
  labels, and \<open>classify_paper\<close> returns \<^verbatim>\<open>NLP\<close> for it, not \<^verbatim>\<open>Other\<close>.
\<close>

theorem classify_paper_counterexample:
  "''NLP'' @ [CHR 0x0A] \<notin> set LABELS
   \<and> classify_paper (answers (''NLP'' @ [CHR 0x0A])) (Str ''t'') (Str ''a'') = ''NLP''"
  by (simp add: classify_paper_def answers_def LABELS_def strip_def isspace_def)

text \<open>
  C9, amended. \<open>classify_paper\<close> returns \<^verbatim>\<open>Other\<close> when the call raises and when the
  answer, stripped of surrounding whitespace, is not one of the labels; it returns the
  stripped answer when that is one of the labels, and so an answer that is itself a
  label is returned as it is.
\<close>

theorem classify_paper_stripped:
  "(svc (prompt title abstract) = None \<longrightarrow> classify_paper svc title abstract = ''Other'')
   \<and> (svc (prompt title abstract) = Some r \<and> strip r \<notin> set LABELS
        \<longrightarrow> classify_paper svc title abstract = ''Other'')
   \<and> (svc (prompt title abstract) = Some r \<and> strip r \<in> set LABELS
        \<longrightarrow> classify_paper svc title abstract = strip r)
   \<and> (svc (prompt title abstract) = Some r \<and> r \<in> set LABELS
        \<longrightarrow> classify_paper svc title abstract = r)"
  by (auto simp: classify_paper_def Let_def strip_LABELS)

theorem classify_paper_stripped_witness:
  "answers ''Biology'' (prompt (Str ''t'') (Str ''a'')) = Some ''Biology''
   \<and> strip ''Biology'' \<notin> set LABELS
   \<and> classify_paper (answers ''Biology'') (Str ''t'') (Str ''a'') = ''Other''
   \<and> answers '' NLP '' (prompt (Str ''t'') (Str ''a'')) = Some '' NLP ''
   \<and> strip '' NLP '' \<in> set LABELS
   \<and> classify_paper (answers '' NLP '') (Str ''t'') (Str ''a'') = ''NLP''"
proof -
  have a: "answers ''Biology'' (prompt (Str ''t'') (Str ''a'')) = Some ''Biology''"
    and b: "answers '' NLP '' (prompt (Str ''t'') (Str ''a'')) = Some '' NLP ''"
    by (simp_all add: answers_def)
  have c: "strip ''Biology'' \<notin> set LABELS" and d: "strip '' NLP '' = ''NLP''"
    and e: "strip '' NLP '' \<in> set LABELS"
    by (simp_all add: strip_def isspace_def LABELS_def)
  show ?thesis
    using classify_paper_stripped [of "answers ''Biology''" "Str ''t''" "Str ''a''" "''Biology''"]
      classify_paper_stripped [of "answers '' NLP ''" "Str ''t''" "Str ''a''" "'' NLP ''"]
      a b c d e
    by simp
qed

section \<open>Enrichment\<close>

text \<open>The pass never reads what \<^verbatim>\<open>OUTPUT_CSV_FILE\<close> holds.\<close>

lemma annotate_rows_ignores_output:
  "fst (annotate_rows pd svc floats seen rows (a\<lparr>out_file := out\<rparr>))
     = fst (annotate_rows pd svc floats seen rows a)
   \<and> calls (snd (annotate_rows pd svc floats seen rows (a\<lparr>out_file := out\<rparr>)))
     = calls (snd (annotate_rows pd svc floats seen rows a))"
  by (cases rows) (simp_all add: Let_def)

lemma annotate_papers_ignores_output:
  "fst (annotate_papers pd svc store (a\<lparr>out_file := out\<rparr>))
     = fst (annotate_papers pd svc store a)
   \<and> calls (snd (annotate_papers pd svc store (a\<lparr>out_file := out\<rparr>)))
     = calls (snd (annotate_papers pd svc store a))"
proof (cases store)
  case None
  then show ?thesis by (simp add: annotate_papers_def)
next
  case (Some df)
  let ?rows = "if \<not> has_label df then map (\<lambda>r. r\<lparr>c_label := Str ''N/A''\<rparr>) (df_rows df)
               else df_rows df"
  from annotate_rows_ignores_output [of pd svc "float_labels df" "[]" ?rows out a]
  show ?thesis
    unfolding Some annotate_papers_def Let_def
    by (cases "annotate_rows pd svc (float_labels df) [] ?rows (a\<lparr>out_file := out\<rparr>)";
        cases "annotate_rows pd svc (float_labels df) [] ?rows a")
      (auto split: sum.splits)
qed

text \<open>The write-back into a column of floats, under either pandas.\<close>

lemma write_back_raises:
  "annotate_papers Raises (answers ''NLP'') (Some empty_labels_df) no_annotation
     = (Inl TypeError, \<lparr>calls = [(Str ''A'', Str ''About'')], out_file = None\<rparr>)"
  "annotate_papers Upcasts (answers ''NLP'') (Some empty_labels_df) no_annotation
     = (Inr (Some [example_row ''A'' (Str ''NLP'')]),
        \<lparr>calls = [(Str ''A'', Str ''About'')],
         out_file = Some [example_row ''A'' (Str ''NLP'')]\<rparr>)"
  by (simp_all add: annotate_papers_def empty_labels_df_def float_labels_def example_row_def
      no_annotation_def classify_paper_def answers_def strip_def isspace_def LABELS_def Let_def)

lemma classify_answers:
  "classify_paper (answers ''NLP'') t a = ''NLP''"
  "classify_paper (answers ''Optimization'') t a = ''Optimization''"
  by (simp_all add: classify_paper_def answers_def strip_def isspace_def LABELS_def)

lemma first_pass_first_row:
  "annotate_rows pd (answers ''NLP'') False []
       (map (\<lambda>r. r\<lparr>c_label := Str ''N/A''\<rparr>) (df_rows crawl_df)) no_annotation
     = annotate_rows pd (answers ''NLP'') False [example_row ''A'' (Str ''NLP'')]
         [example_row ''B'' (Str ''N/A'')] after_first_row"
  by (simp add: crawl_df_def example_row_def no_annotation_def after_first_row_def
      classify_answers Let_def)

lemma second_pass:
  "annotate_papers pd (answers ''Optimization'') (Some crawl_df) stopped
     = (Inr (Some [example_row ''A'' (Str ''Optimization''),
                   example_row ''B'' (Str ''Optimization'')]),
        \<lparr>calls = [(Str ''A'', Str ''About''), (Str ''B'', Str ''About'')],
         out_file = Some [example_row ''A'' (Str ''Optimization''),
                          example_row ''B'' (Str ''Optimization'')]\<rparr>)"
  by (simp add: annotate_papers_def crawl_df_def float_labels_def example_row_def stopped_def
      classify_answers Let_def)

text \<open>
  C3 does not hold of \<open>annotate_papers\<close>. The crawl leaves \<^verbatim>\<open>CSV_FILE\<close> without a
  label column. A first pass that is stopped after its first row has written to
  \<^verbatim>\<open>OUTPUT_CSV_FILE\<close> a store in which row A carries the label NLP and row B the
  sentinel. The pass run again reads \<^verbatim>\<open>CSV_FILE\<close>, where no row has a label: it
  calls the classification for A as well as for B, and the label of A in the store is
  replaced by the new answer. This is so under either pandas.
\<close>

theorem rerun_classifies_labelled_rows:
  "annotate_rows Raises (answers ''NLP'') False []
       (map (\<lambda>r. r\<lparr>c_label := Str ''N/A''\<rparr>) (df_rows crawl_df)) no_annotation
     = annotate_rows Raises (answers ''NLP'') False [example_row ''A'' (Str ''NLP'')]
         [example_row ''B'' (Str ''N/A'')] after_first_row
   \<and> out_file stopped = out_file after_first_row
   \<and> out_file stopped = Some [example_row ''A'' (Str ''NLP''), example_row ''B'' (Str ''N/A'')]
   \<and> calls stopped = []
   \<and> annotate_papers Raises (answers ''Optimization'') (Some crawl_df) stopped
       = (Inr (Some [example_row ''A'' (Str ''Optimization''),
                     example_row ''B'' (Str ''Optimization'')]),
          \<lparr>calls = [(Str ''A'', Str ''About''), (Str ''B'', Str ''About'')],
           out_file = Some [example_row ''A'' (Str ''Optimization''),
                            example_row ''B'' (Str ''Optimization'')]\<rparr>)
   \<and> annotate_papers Upcasts (answers ''Optimization'') (Some crawl_df) stopped
       = annotate_papers Raises (answers ''Optimization'') (Some crawl_df) stopped"
proof (intro conjI)
  show "annotate_rows Raises (answers ''NLP'') False []
       (map (\<lambda>r. r\<lparr>c_label := Str ''N/A''\<rparr>) (df_rows crawl_df)) no_annotation
     = annotate_rows Raises (answers ''NLP'') False [example_row ''A'' (Str ''NLP'')]
         [example_row ''B'' (Str ''N/A'')] after_first_row"
    by (rule first_pass_first_row)
  show "out_file stopped = out_file after_first_row"
    by (simp add: stopped_def after_first_row_def)
  show "out_file stopped = Some [example_row ''A'' (Str ''NLP''), example_row ''B'' (Str ''N/A'')]"
    by (simp add: stopped_def)
  show "calls stopped = []"
    by (simp add: stopped_def)
  show "annotate_papers Raises (answers ''Optimization'') (Some crawl_df) stopped
       = (Inr (Some [example_row ''A'' (Str ''Optimization''),
                     example_row ''B'' (Str ''Optimization'')]),
          \<lparr>calls = [(Str ''A'', Str ''About''), (Str ''B'', Str ''About'')],
           out_file = Some [example_row ''A'' (Str ''Optimization''),
                            example_row ''B'' (Str ''Optimization'')]\<rparr>)"
    by (rule second_pass)
  show "annotate_papers Upcasts (answers ''Optimization'') (Some crawl_df) stopped
       = annotate_papers Raises (answers ''Optimization'') (Some crawl_df) stopped"
    by (simp only: second_pass)
qed


section \<open>The year pipeline and the run driver\<close>

lemma mset_schedule: "mset (schedule ks xs) = mset xs"
proof (induction ks xs rule: schedule.induct)
  case (3 k ks x xs)
  let ?l = "x # xs"
  let ?i = "k mod length ?l"
  have i: "?i < length ?l" by simp
  have "mset ?l = mset (take ?i ?l @ ?l ! ?i # drop (Suc ?i) ?l)"
    using id_take_nth_drop [OF i] by simp
  then have "mset ?l = add_mset (?l ! ?i) (mset (take ?i ?l @ drop (Suc ?i) ?l))"
    by simp
  with 3 show ?case by (simp add: Let_def)
qed simp_all

lemma collect_results_eq: "collect_results results papers = papers @ List.map_filter id results"
proof (induction results papers rule: collect_results.induct)
qed (simp_all add: List.map_filter_simps)

lemma process_paper_fst: "fst (process_paper net url s) = scrape_paper_data net url"
  by (simp add: process_paper_def split: option.splits)

lemma process_paper_all_papers: "all_papers (snd (process_paper net url s)) = all_papers s"
  by (simp add: process_paper_def append_to_csv_def download_pdf_def Let_def
      split: option.splits response.splits)

lemma run_tasks_fst: "fst (run_tasks net urls s) = map (scrape_paper_data net) urls"
proof (induction urls arbitrary: s)
  case (Cons url urls)
  show ?case
    using Cons.IH [of "snd (process_paper net url s)"] process_paper_fst [of net url s]
    by (simp add: split_beta)
qed simp

lemma run_tasks_all_papers: "all_papers (snd (run_tasks net urls s)) = all_papers s"
proof (induction urls arbitrary: s)
  case (Cons url urls)
  show ?case
    using Cons.IH [of "snd (process_paper net url s)"] process_paper_all_papers [of net url s]
    by (simp add: split_beta)
qed simp

lemma mset_map_filter: "mset xs = mset ys \<Longrightarrow> mset (List.map_filter f xs) = mset (List.map_filter f ys)"
  by (metis List.map_filter_def mset_filter mset_map)

lemma length_map_filter: "length (List.map_filter f xs) \<le> length xs"
  by (simp add: List.map_filter_def)

lemma example_links:
  "get_paper_links example_net 2023 =
     [''https://papers.nips.cc/paper_files/paper/2023/hash/a-Abstract.html'',
      ''https://papers.nips.cc/paper_files/paper/2023/hash/b-Abstract.html'']"
  by (simp add: get_paper_links_def BASE_URL_def str_int_2023 example_net_def
      raises_for_status_def collect_links_acc example_index_hrefs qualifies_def year_prefix_def)

lemma example_scrape_a:
  "scrape_paper_data example_net
     ''https://papers.nips.cc/paper_files/paper/2023/hash/a-Abstract.html'' = Some example_paper"
  by (simp add: scrape_eval example_detail_def example_paper_def)

lemma example_scrape_b:
  "scrape_paper_data example_net
     ''https://papers.nips.cc/paper_files/paper/2023/hash/b-Abstract.html'' = None"
  by (simp add: scrape_paper_data_def example_net_def raises_for_status_def)

text \<open>
  C2, as stated, fails: \<open>process_year\<close> does not return a list. With no links
  discovered its value is \<^verbatim>\<open>None\<close>, not the empty list.
\<close>

theorem process_year_counterexample:
  "get_paper_links offline 2023 = []
   \<and> fst (process_year offline ([], []) 2023 empty_state) \<noteq> PyList []"
  by (simp add: process_year_def get_paper_links_def offline_def)

text \<open>
  C2, amended. \<open>process_year\<close> returns \<^verbatim>\<open>None\<close> for every year, network, schedule
  and state. With no links discovered it returns at once and leaves the state as it
  was. Otherwise the records extracted from the discovered links, and only these, are
  appended to \<open>all_papers\<close> in completion order: as many as there are links or fewer.
\<close>

theorem process_year_returns_none:
  "fst (process_year net sched year s) = PyNone
   \<and> (get_paper_links net year = [] \<longrightarrow> snd (process_year net sched year s) = s)
   \<and> (\<exists>new. all_papers (snd (process_year net sched year s)) = all_papers s @ new
          \<and> mset new = mset (List.map_filter (scrape_paper_data net) (get_paper_links net year))
          \<and> length new \<le> length (get_paper_links net year))"
proof (cases "get_paper_links net year = []")
  case True
  then show ?thesis by (simp add: process_year_def List.map_filter_simps)
next
  case False
  let ?links = "get_paper_links net year"
  let ?tasks = "run_tasks net (schedule (fst sched) ?links) s"
  let ?new = "List.map_filter id (schedule (snd sched) (fst ?tasks))"
  have eq: "process_year net sched year s =
      (PyNone, (snd ?tasks)\<lparr>all_papers := all_papers s @ ?new\<rparr>)"
    using False
    by (simp add: process_year_def Let_def split_beta collect_results_eq run_tasks_all_papers)
  have "mset (schedule (snd sched) (fst ?tasks)) = mset (map (scrape_paper_data net) ?links)"
    by (simp add: mset_schedule run_tasks_fst)
  then have "mset ?new = mset (List.map_filter id (map (scrape_paper_data net) ?links))"
    by (rule mset_map_filter)
  also have "List.map_filter id (map (scrape_paper_data net) ?links)
               = List.map_filter (scrape_paper_data net) ?links"
    by (simp add: List.map_filter_def filter_map comp_def)
  finally have m: "mset ?new = mset (List.map_filter (scrape_paper_data net) ?links)" .
  then have "size (mset ?new) = size (mset (List.map_filter (scrape_paper_data net) ?links))"
    by simp
  then have "length ?new \<le> length ?links"
    using length_map_filter [of "scrape_paper_data net" ?links] by simp
  with m show ?thesis
    unfolding eq using False by simp
qed

theorem process_year_returns_none_witness:
  "get_paper_links offline 2021 = []
   \<and> snd (process_year offline ([], []) 2021 empty_state) = empty_state
   \<and> fst (process_year example_net ([1], [1]) 2023 empty_state) = PyNone
   \<and> all_papers (snd (process_year example_net ([1], [1]) 2023 empty_state)) = [example_paper]"
proof -
  have h: "get_paper_links offline 2021 = []"
    by (simp add: get_paper_links_def offline_def)
  have e: "all_papers empty_state = []" by (simp add: empty_state_def)
  have f: "List.map_filter (scrape_paper_data example_net) (get_paper_links example_net 2023)
             = [example_paper]"
    by (simp add: example_links List.map_filter_simps example_scrape_a example_scrape_b)
  from process_year_returns_none [of example_net "([1], [1])" 2023 empty_state]
  have "all_papers (snd (process_year example_net ([1], [1]) 2023 empty_state)) = [example_paper]"
    unfolding f e by auto
  with process_year_returns_none [of offline "([], [])" 2021 empty_state]
    process_year_returns_none [of example_net "([1], [1])" 2023 empty_state] h
  show ?thesis by simp
qed

lemma download_pdf_csv: "csv (download_pdf net p s) = csv s"
  by (simp add: download_pdf_def Let_def split: option.splits response.splits)

lemma download_pdf_all_papers: "all_papers (download_pdf net p s) = all_papers s"
  by (simp add: download_pdf_def Let_def split: option.splits response.splits)

lemma process_year_no_links:
  "get_paper_links net year = [] \<Longrightarrow> process_year net sched year s = (PyNone, s)"
  by (simp add: process_year_def)

lemma example_no_links:
  "get_paper_links example_net 2020 = []" "get_paper_links example_net 2021 = []"
  "get_paper_links example_net 2022 = []" "get_paper_links example_net 2024 = []"
  by (simp_all add: get_paper_links_def BASE_URL_def str_int_def str_nat.simps digit_char_def
      example_net_def)

lemma example_year_2023:
  "csv (snd (process_year example_net (in_order 2023) 2023 s))
     = (case csv s of None \<Rightarrow> Some [csv_row example_paper]
        | Some rows \<Rightarrow> Some (rows @ [csv_row example_paper]))"
  "all_papers (snd (process_year example_net (in_order 2023) 2023 s))
     = all_papers s @ [example_paper]"
  by (simp_all add: process_year_def example_links in_order_def process_paper_def
      example_scrape_a example_scrape_b append_to_csv_def download_pdf_csv
      download_pdf_all_papers)

lemma example_run_years:
  "run_years example_net in_order YEARS s = snd (process_year example_net (in_order 2023) 2023 s)"
  by (simp add: YEARS_def process_year_no_links example_no_links)

text \<open>
  C10 does not hold of \<open>main\<close>: when \<^verbatim>\<open>CSV_FILE\<close> has a row from an earlier run, the
  appends of this run leave that row and add the new one, and the final save then
  replaces the file by the header and the new row alone. The earlier row is lost by
  the final save, which is therefore not redundant.
\<close>

theorem final_save_drops_earlier_rows:
  "csv (module_init earlier_state) = Some [HEADER, earlier_row]
   \<and> csv (run_years example_net in_order YEARS (module_init earlier_state))
       = Some [HEADER, earlier_row, csv_row example_paper]
   \<and> csv (scrapper example_net in_order earlier_state) = Some [HEADER, csv_row example_paper]"
  by (simp add: scrapper_def main_def final_save_def example_run_years example_year_2023
      module_init_def earlier_state_def)

section \<open>The result sink under concurrent appends\<close>

lemma sink_inv_start: "sink_inv recs f [] (start recs f)"
  by (simp add: sink_inv_def start_def lines_of_def idle_def)

lemma done_update_other:
  assumes "ps ! i \<noteq> Done" and "v \<noteq> Done"
  shows "{k. k < n \<and> ps[i := v] ! k = Done} = {k. k < n \<and> ps ! k = Done}"
proof (rule Collect_cong)
  fix k
  show "(k < n \<and> ps[i := v] ! k = Done) = (k < n \<and> ps ! k = Done)"
  proof (cases "k = i")
    case True
    with assms show ?thesis by (cases "i < length ps") (simp_all add: list_update_beyond)
  next
    case False
    then show ?thesis by simp
  qed
qed

lemma done_update_done:
  assumes "i < length ps" and "i < n"
  shows "{k. k < n \<and> ps[i := Done] ! k = Done} = insert i {k. k < n \<and> ps ! k = Done}"
proof (rule set_eqI)
  fix k
  show "k \<in> {k. k < n \<and> ps[i := Done] ! k = Done} \<longleftrightarrow> k \<in> insert i {k. k < n \<and> ps ! k = Done}"
  proof (cases "k = i")
    case True
    with assms show ?thesis by simp
  next
    case False
    then show ?thesis by simp
  qed
qed

lemma sink_inv_acquire:
  assumes inv: "sink_inv recs f order s" and i: "i < length recs"
    and w: "pcs s ! i = Waiting" and l: "lock s = None"
  shows "sink_inv recs f order
           (s\<lparr>lock := Some i, pcs := (pcs s)[i := Writing (csv_line (recs ! i))]\<rparr>)"
proof -
  let ?ps = "(pcs s)[i := Writing (csv_line (recs ! i))]"
  from inv l have len: "length (pcs s) = length recs" and dist: "distinct order"
    and dn: "set order = {k. k < length recs \<and> pcs s ! k = Done}"
    and fl: "csv_file s = f @ lines_of recs order"
    and idl: "\<forall>k<length recs. idle (pcs s ! k)"
    by (simp_all add: sink_inv_def)
  have dn': "set order = {k. k < length recs \<and> ?ps ! k = Done}"
    unfolding dn by (rule done_update_other [symmetric]) (simp_all add: w)
  have wr: "?ps ! i = Writing (csv_line (recs ! i))"
    using i len by simp
  have ex: "\<exists>written ts. ?ps ! i = Writing ts \<and> csv_line (recs ! i) = written @ ts
              \<and> csv_file s = f @ lines_of recs order @ written"
  proof (intro exI conjI)
    show "?ps ! i = Writing (csv_line (recs ! i))" by (rule wr)
    show "csv_line (recs ! i) = [] @ csv_line (recs ! i)" by simp
    show "csv_file s = f @ lines_of recs order @ []" using fl by simp
  qed
  have oth: "\<forall>k<length recs. k \<noteq> i \<longrightarrow> idle (?ps ! k)"
    using idl by simp
  show ?thesis
    unfolding sink_inv_def using len dist dn' i ex oth by simp
qed

lemma sink_inv_holder:
  assumes inv: "sink_inv recs f order s" and i: "i < length recs"
    and w: "pcs s ! i = Writing ts"
  shows "lock s = Some i
    \<and> (\<exists>written. csv_line (recs ! i) = written @ ts
          \<and> csv_file s = f @ lines_of recs order @ written)
    \<and> (\<forall>k<length recs. k \<noteq> i \<longrightarrow> idle (pcs s ! k))"
proof (cases "lock s")
  case None
  with inv have "\<forall>k<length recs. idle (pcs s ! k)" by (simp add: sink_inv_def)
  with i have "idle (pcs s ! i)" by blast
  with w show ?thesis by (simp add: idle_def)
next
  case (Some j)
  with inv have j: "\<exists>written ts. pcs s ! j = Writing ts \<and> csv_line (recs ! j) = written @ ts
                      \<and> csv_file s = f @ lines_of recs order @ written"
    and oth: "\<forall>k<length recs. k \<noteq> j \<longrightarrow> idle (pcs s ! k)"
    by (simp_all add: sink_inv_def)
  have "i = j"
  proof (rule ccontr)
    assume "i \<noteq> j"
    with oth i have "idle (pcs s ! i)" by blast
    with w show False by (simp add: idle_def)
  qed
  with Some j oth w show ?thesis by auto
qed

lemma sink_inv_write:
  assumes inv: "sink_inv recs f order s" and i: "i < length recs"
    and w: "pcs s ! i = Writing (t # ts)"
  shows "sink_inv recs f order (s\<lparr>pcs := (pcs s)[i := Writing ts], csv_file := csv_file s @ [t]\<rparr>)"
proof -
  let ?ps = "(pcs s)[i := Writing ts]"
  from inv have len: "length (pcs s) = length recs" and dist: "distinct order"
    and dn: "set order = {k. k < length recs \<and> pcs s ! k = Done}"
    by (simp_all add: sink_inv_def)
  from sink_inv_holder [OF inv i w] obtain written where lk: "lock s = Some i"
    and line: "csv_line (recs ! i) = written @ t # ts"
    and fl: "csv_file s = f @ lines_of recs order @ written"
    and oth: "\<forall>k<length recs. k \<noteq> i \<longrightarrow> idle (pcs s ! k)"
    by blast
  have dn': "set order = {k. k < length recs \<and> ?ps ! k = Done}"
    unfolding dn by (rule done_update_other [symmetric]) (simp_all add: w)
  have ex: "\<exists>written' ts'. ?ps ! i = Writing ts' \<and> csv_line (recs ! i) = written' @ ts'
              \<and> csv_file s @ [t] = f @ lines_of recs order @ written'"
  proof (intro exI conjI)
    show "?ps ! i = Writing ts" using i len by simp
    show "csv_line (recs ! i) = (written @ [t]) @ ts" using line by simp
    show "csv_file s @ [t] = f @ lines_of recs order @ (written @ [t])" using fl by simp
  qed
  have oth': "\<forall>k<length recs. k \<noteq> i \<longrightarrow> idle (?ps ! k)"
    using oth by simp
  show ?thesis
    unfolding sink_inv_def using len dist dn' i lk ex oth' by simp
qed

lemma sink_inv_release:
  assumes inv: "sink_inv recs f order s" and i: "i < length recs"
    and w: "pcs s ! i = Writing []"
  shows "sink_inv recs f (order @ [i]) (s\<lparr>lock := None, pcs := (pcs s)[i := Done]\<rparr>)"
proof -
  let ?ps = "(pcs s)[i := Done]"
  from inv have len: "length (pcs s) = length recs" and dist: "distinct order"
    and dn: "set order = {k. k < length recs \<and> pcs s ! k = Done}"
    by (simp_all add: sink_inv_def)
  from sink_inv_holder [OF inv i w] have line: "csv_file s = f @ lines_of recs order @ csv_line (recs ! i)"
    and oth: "\<forall>k<length recs. k \<noteq> i \<longrightarrow> idle (pcs s ! k)"
    by auto
  have notin: "i \<notin> set order" unfolding dn using w by simp
  have dn': "set (order @ [i]) = {k. k < length recs \<and> ?ps ! k = Done}"
    using done_update_done [of i "pcs s" "length recs"] i len dn by simp
  have fl: "csv_file s = f @ lines_of recs (order @ [i])"
    using line by (simp add: lines_of_def)
  have idl: "\<forall>k<length recs. idle (?ps ! k)"
  proof (intro allI impI)
    fix k assume k: "k < length recs"
    show "idle (?ps ! k)"
    proof (cases "k = i")
      case True
      then show ?thesis using i len by (simp add: idle_def)
    next
      case False
      with oth k show ?thesis by simp
    qed
  qed
  show ?thesis
    unfolding sink_inv_def using len dist notin dn' fl idl by simp
qed

lemma sink_inv_step:
  assumes inv: "sink_inv recs f order s"
  shows "\<exists>order'. sink_inv recs f order' (step recs i s)"
proof (cases "length (pcs s) \<le> i \<or> length recs \<le> i")
  case True
  then have "step recs i s = s" by (simp add: step_def)
  with inv show ?thesis by auto
next
  case False
  then have i: "i < length recs" and i': "\<not> (length (pcs s) \<le> i \<or> length recs \<le> i)" by auto
  show ?thesis
  proof (cases "pcs s ! i")
    case Waiting
    show ?thesis
    proof (cases "lock s")
      case None
      have "step recs i s = s\<lparr>lock := Some i, pcs := (pcs s)[i := Writing (csv_line (recs ! i))]\<rparr>"
        using i' Waiting None by (simp add: step_def)
      with sink_inv_acquire [OF inv i Waiting None] show ?thesis by auto
    next
      case (Some j)
      then have "step recs i s = s" using i' Waiting by (simp add: step_def)
      with inv show ?thesis by auto
    qed
  next
    case (Writing ts)
    show ?thesis
    proof (cases ts)
      case Nil
      have "step recs i s = s\<lparr>lock := None, pcs := (pcs s)[i := Done]\<rparr>"
        using i' Writing Nil by (simp add: step_def)
      with sink_inv_release [OF inv i Writing [unfolded Nil]] show ?thesis by auto
    next
      case (Cons t ts')
      have "step recs i s = s\<lparr>pcs := (pcs s)[i := Writing ts'], csv_file := csv_file s @ [t]\<rparr>"
        using i' Writing Cons by (simp add: step_def)
      with sink_inv_write [OF inv i Writing [unfolded Cons]] show ?thesis by auto
    qed
  next
    case Done
    then have "step recs i s = s" using i' by (simp add: step_def)
    with inv show ?thesis by auto
  qed
qed

lemma sink_inv_run:
  "sink_inv recs f order s \<Longrightarrow> \<exists>order'. sink_inv recs f order' (run recs sched s)"
proof (induction sched arbitrary: order s)
  case Nil
  then show ?case by auto
next
  case (Cons i sched)
  from sink_inv_step [OF Cons.prems] obtain order' where "sink_inv recs f order' (step recs i s)" ..
  from Cons.IH [OF this] show ?case by simp
qed

lemma read_rows_line: "read_rows cur (map Cell cs @ EOL # ts) = (cur @ cs) # read_rows [] ts"
  by (induction cs arbitrary: cur) simp_all

lemma read_rows_lines:
  "read_rows [] (concat (map csv_line ps) @ ts) = map csv_row ps @ read_rows [] ts"
  by (induction ps) (simp_all add: csv_line_def read_rows_line)

text \<open>The tasks can always finish: run one after the other, all of them do.\<close>

lemma one_by_one_Suc:
  "one_by_one recs (Suc k)
     = one_by_one recs k @ replicate (Suc (Suc (length (csv_line (recs ! k))))) k"
  by (simp add: one_by_one_def)

lemma run_append: "run recs (a @ b) s = run recs b (run recs a s)"
  by (induction a arbitrary: s) simp_all

lemma run_writes:
  "pcs s ! i = Writing ts \<Longrightarrow> i < length (pcs s) \<Longrightarrow> i < length recs \<Longrightarrow>
     run recs (replicate (Suc (length ts)) i) s
       = s\<lparr>lock := None, pcs := (pcs s)[i := Done], csv_file := csv_file s @ ts\<rparr>"
proof (induction ts arbitrary: s)
  case Nil
  then show ?case by (simp add: step_def)
next
  case (Cons t ts)
  let ?s = "s\<lparr>pcs := (pcs s)[i := Writing ts], csv_file := csv_file s @ [t]\<rparr>"
  have st: "step recs i s = ?s" using Cons.prems by (simp add: step_def)
  have "run recs (replicate (Suc (length ts)) i) ?s
      = ?s\<lparr>lock := None, pcs := (pcs ?s)[i := Done], csv_file := csv_file ?s @ ts\<rparr>"
    by (rule Cons.IH) (use Cons.prems in simp_all)
  then show ?case by (simp add: st)
qed

lemma run_task:
  assumes "lock s = None" and "pcs s ! i = Waiting" and "i < length (pcs s)" and "i < length recs"
  shows "run recs (replicate (Suc (Suc (length (csv_line (recs ! i))))) i) s
       = s\<lparr>lock := None, pcs := (pcs s)[i := Done],
            csv_file := csv_file s @ csv_line (recs ! i)\<rparr>"
proof -
  let ?s = "s\<lparr>lock := Some i, pcs := (pcs s)[i := Writing (csv_line (recs ! i))]\<rparr>"
  have st: "step recs i s = ?s" using assms by (simp add: step_def)
  have "run recs (replicate (Suc (length (csv_line (recs ! i)))) i) ?s
      = ?s\<lparr>lock := None, pcs := (pcs ?s)[i := Done],
            csv_file := csv_file ?s @ csv_line (recs ! i)\<rparr>"
    by (rule run_writes) (use assms in simp_all)
  then show ?thesis using st by simp
qed

lemma run_one_by_one:
  "k \<le> length recs \<Longrightarrow>
     run recs (one_by_one recs k) (start recs f)
       = \<lparr>lock = None, pcs = replicate k Done @ replicate (length recs - k) Waiting,
          csv_file = f @ concat (map csv_line (take k recs))\<rparr>"
proof (induction k)
  case 0
  then show ?case by (simp add: one_by_one_def start_def)
next
  case (Suc k)
  let ?s = "\<lparr>lock = None, pcs = replicate k Done @ replicate (length recs - k) Waiting,
          csv_file = f @ concat (map csv_line (take k recs))\<rparr>"
  from Suc have s: "run recs (one_by_one recs k) (start recs f) = ?s" by simp
  have k: "k < length recs" using Suc.prems by simp
  have task: "run recs (replicate (Suc (Suc (length (csv_line (recs ! k))))) k) ?s
      = ?s\<lparr>lock := None, pcs := (pcs ?s)[k := Done],
            csv_file := csv_file ?s @ csv_line (recs ! k)\<rparr>"
    by (rule run_task) (use k in \<open>simp_all add: nth_append\<close>)
  have upd: "(replicate k Done @ replicate (length recs - k) Waiting)[k := Done]
      = replicate (Suc k) Done @ replicate (length recs - Suc k) Waiting"
  proof -
    from k obtain m where m: "length recs - k = Suc m" and m': "length recs - Suc k = m"
      by (cases "length recs - k") auto
    show ?thesis
      unfolding m m' by (simp add: list_update_append replicate_append_same)
  qed
  have "run recs (one_by_one recs (Suc k)) (start recs f)
      = run recs (replicate (Suc (Suc (length (csv_line (recs ! k))))) k)
          (run recs (one_by_one recs k) (start recs f))"
    unfolding one_by_one_Suc run_append ..
  also have "\<dots> = ?s\<lparr>lock := None, pcs := (pcs ?s)[k := Done],
            csv_file := csv_file ?s @ csv_line (recs ! k)\<rparr>"
    unfolding s by (rule task)
  also have "\<dots> = \<lparr>lock = None,
          pcs = replicate (Suc k) Done @ replicate (length recs - Suc k) Waiting,
          csv_file = f @ concat (map csv_line (take (Suc k) recs))\<rparr>"
    using k upd by (simp add: take_Suc_conv_app_nth del: replicate_Suc)
  finally show ?case .
qed

lemma one_by_one_completes: "all_done (run recs (one_by_one recs (length recs)) (start recs f))"
  by (simp add: run_one_by_one all_done_def list_all_iff)

lemma example_run:
  "run two_papers example_schedule (start two_papers [])
     = \<lparr>lock = None, pcs = [Done, Done],
        csv_file = csv_line example_record_d @ csv_line example_paper\<rparr>"
  by code_simp

lemma fold_append_to_csv:
  "csv s = Some rows \<Longrightarrow> csv (fold append_to_csv ps s) = Some (rows @ map csv_row ps)"
  by (induction ps arbitrary: s rows) (simp_all add: append_to_csv_def)

text \<open>
  C1. \<open>recs\<close> are the records of the tasks, \<open>old\<close> the rows the file holds before.
  Whatever the schedule, once every task has left \<open>append_to_csv\<close> the file is the old
  content followed by the complete lines of the tasks, one line for each task, in some
  order of the tasks. Read back, it has the old rows and then exactly one row for each
  task, and the row of a task holds the title, the authors, the abstract, the PDF URL
  (empty when absent) and the year of that task's record, nothing else. These are the
  rows that \<open>append_to_csv\<close>, called for the records one after the other in that order,
  leaves in the store.
\<close>

theorem appends_under_lock:
  assumes "all_done (run recs sched (start recs (concat (map csv_line old))))"
  shows "\<exists>order. mset order = mset [0..<length recs]
    \<and> csv_file (run recs sched (start recs (concat (map csv_line old))))
        = concat (map csv_line old) @ concat (map (\<lambda>i. csv_line (recs ! i)) order)
    \<and> read_rows [] (csv_file (run recs sched (start recs (concat (map csv_line old)))))
        = map csv_row old
          @ map (\<lambda>i. [p_title (recs ! i), p_authors (recs ! i), p_abstract (recs ! i),
                       (case p_pdf_url (recs ! i) of None \<Rightarrow> [] | Some u \<Rightarrow> u),
                       p_year (recs ! i)]) order
    \<and> csv (fold append_to_csv (map (\<lambda>i. recs ! i) order) (s\<lparr>csv := Some (map csv_row old)\<rparr>))
        = Some (read_rows [] (csv_file (run recs sched (start recs (concat (map csv_line old))))))"
proof -
  let ?f = "concat (map csv_line old)"
  let ?s = "run recs sched (start recs ?f)"
  from sink_inv_run [OF sink_inv_start] obtain order where inv: "sink_inv recs ?f order ?s"
    by blast
  then have len: "length (pcs ?s) = length recs" and dist: "distinct order"
    and dn: "set order = {i. i < length recs \<and> pcs ?s ! i = Done}"
    by (simp_all add: sink_inv_def)
  from assms have fin: "\<forall>i<length recs. pcs ?s ! i = Done"
    by (simp add: all_done_def list_all_length len)
  have lk: "lock ?s = None"
  proof (cases "lock ?s")
    case (Some j)
    with inv fin show ?thesis by (auto simp: sink_inv_def)
  qed simp
  with inv have fl: "csv_file ?s = ?f @ lines_of recs order"
    by (simp add: sink_inv_def)
  from dn fin have "set order = set [0..<length recs]" by auto
  then have m: "mset order = mset [0..<length recs]"
    by (rule iffD1 [OF set_eq_iff_mset_eq_distinct [OF dist distinct_upt]])
  have "lines_of recs order = concat (map csv_line (map (\<lambda>i. recs ! i) order))"
    by (simp add: lines_of_def comp_def)
  then have rr: "read_rows [] (csv_file ?s) = map csv_row (old @ map (\<lambda>i. recs ! i) order)"
    using read_rows_lines [of "old @ map (\<lambda>i. recs ! i) order" "[]"] fl by simp
  then have b: "read_rows [] (csv_file ?s) = map csv_row old
          @ map (\<lambda>i. [p_title (recs ! i), p_authors (recs ! i), p_abstract (recs ! i),
                       (case p_pdf_url (recs ! i) of None \<Rightarrow> [] | Some u \<Rightarrow> u),
                       p_year (recs ! i)]) order"
    by (simp add: comp_def csv_row_def)
  from fl have a: "csv_file ?s = ?f @ concat (map (\<lambda>i. csv_line (recs ! i)) order)"
    by (simp only: lines_of_def)
  have "csv (fold append_to_csv (map (\<lambda>i. recs ! i) order) (s\<lparr>csv := Some (map csv_row old)\<rparr>))
      = Some (map csv_row old @ map csv_row (map (\<lambda>i. recs ! i) order))"
    by (rule fold_append_to_csv) simp
  then have c: "csv (fold append_to_csv (map (\<lambda>i. recs ! i) order)
                  (s\<lparr>csv := Some (map csv_row old)\<rparr>))
      = Some (read_rows [] (csv_file ?s))"
    unfolding rr by simp
  show ?thesis
    by (rule exI [of _ order]) (intro conjI m a b c)
qed

theorem appends_under_lock_witness:
  "all_done (run two_papers example_schedule (start two_papers []))
   \<and> read_rows [] (csv_file (run two_papers example_schedule (start two_papers [])))
       = [[''Paper D'', ''N/A'', ''N/A'', [], ''2023''],
          [''Paper A'', ''N/A'', ''About A.'',
           ''https://papers.nips.cc/paper_files/paper/2023/file/a-Paper.pdf'', ''2023'']]
   \<and> csv (fold append_to_csv [example_record_d, example_paper] (empty_state\<lparr>csv := Some []\<rparr>))
       = Some (read_rows [] (csv_file (run two_papers example_schedule (start two_papers []))))
   \<and> (\<exists>order. mset order = mset [0..<length two_papers]
         \<and> read_rows [] (csv_file (run two_papers example_schedule (start two_papers [])))
             = map (\<lambda>i. [p_title (two_papers ! i), p_authors (two_papers ! i),
                          p_abstract (two_papers ! i),
                          (case p_pdf_url (two_papers ! i) of None \<Rightarrow> [] | Some u \<Rightarrow> u),
                          p_year (two_papers ! i)]) order
         \<and> csv (fold append_to_csv (map (\<lambda>i. two_papers ! i) order) (empty_state\<lparr>csv := Some []\<rparr>))
             = Some (read_rows [] (csv_file (run two_papers example_schedule
                                               (start two_papers [])))))"
proof -
  have h: "all_done (run two_papers example_schedule (start two_papers (concat (map csv_line []))))"
    by (simp add: example_run all_done_def)
  have r: "read_rows [] (csv_file (run two_papers example_schedule (start two_papers [])))
       = [[''Paper D'', ''N/A'', ''N/A'', [], ''2023''],
          [''Paper A'', ''N/A'', ''About A.'',
           ''https://papers.nips.cc/paper_files/paper/2023/file/a-Paper.pdf'', ''2023'']]"
    using read_rows_lines [of "[example_record_d, example_paper]" "[]"]
    by (simp add: example_run csv_row_def example_record_d_def example_paper_def)
  have f: "csv (fold append_to_csv [example_record_d, example_paper] (empty_state\<lparr>csv := Some []\<rparr>))
       = Some [[''Paper D'', ''N/A'', ''N/A'', [], ''2023''],
          [''Paper A'', ''N/A'', ''About A.'',
           ''https://papers.nips.cc/paper_files/paper/2023/file/a-Paper.pdf'', ''2023'']]"
    by (simp add: append_to_csv_def csv_row_def example_record_d_def example_paper_def)
  from appends_under_lock [OF h, of empty_state]
  obtain order where m: "mset order = mset [0..<length two_papers]"
    and rr: "read_rows [] (csv_file (run two_papers example_schedule
            (start two_papers (concat (map csv_line [])))))
           = map csv_row []
             @ map (\<lambda>i. [p_title (two_papers ! i), p_authors (two_papers ! i),
                          p_abstract (two_papers ! i),
                          (case p_pdf_url (two_papers ! i) of None \<Rightarrow> [] | Some u \<Rightarrow> u),
                          p_year (two_papers ! i)]) order"
    and ff: "csv (fold append_to_csv (map (\<lambda>i. two_papers ! i) order)
                   (empty_state\<lparr>csv := Some (map csv_row [])\<rparr>))
        = Some (read_rows [] (csv_file (run two_papers example_schedule
                   (start two_papers (concat (map csv_line []))))))"
    by blast
  from rr have rr': "read_rows [] (csv_file (run two_papers example_schedule (start two_papers [])))
             = map (\<lambda>i. [p_title (two_papers ! i), p_authors (two_papers ! i),
                          p_abstract (two_papers ! i),
                          (case p_pdf_url (two_papers ! i) of None \<Rightarrow> [] | Some u \<Rightarrow> u),
                          p_year (two_papers ! i)]) order"
    by simp
  from ff have ff': "csv (fold append_to_csv (map (\<lambda>i. two_papers ! i) order)
                   (empty_state\<lparr>csv := Some []\<rparr>))
        = Some (read_rows [] (csv_file (run two_papers example_schedule (start two_papers []))))"
    by simp
  from h have h': "all_done (run two_papers example_schedule (start two_papers []))"
    by simp
  have e: "\<exists>order. mset order = mset [0..<length two_papers]
         \<and> read_rows [] (csv_file (run two_papers example_schedule (start two_papers [])))
             = map (\<lambda>i. [p_title (two_papers ! i), p_authors (two_papers ! i),
                          p_abstract (two_papers ! i),
                          (case p_pdf_url (two_papers ! i) of None \<Rightarrow> [] | Some u \<Rightarrow> u),
                          p_year (two_papers ! i)]) order
         \<and> csv (fold append_to_csv (map (\<lambda>i. two_papers ! i) order) (empty_state\<lparr>csv := Some []\<rparr>))
             = Some (read_rows [] (csv_file (run two_papers example_schedule
                                               (start two_papers []))))"
    by (rule exI [of _ order]) (intro conjI m rr' ff')
  have f': "csv (fold append_to_csv [example_record_d, example_paper] (empty_state\<lparr>csv := Some []\<rparr>))
       = Some (read_rows [] (csv_file (run two_papers example_schedule (start two_papers []))))"
    unfolding r by (rule f)
  show ?thesis by (intro conjI h' r f' e)
qed

end
